theory Spec2Isabelle
  imports Main "HOL-Library.Word"
begin

section \<open>The event-log collector of WinOps Guard (\<^verbatim>\<open>main.go\<close>)\<close>

text \<open>
  The collector queries the Windows event log through \<^verbatim>\<open>wevtapi.dll\<close>, pages through
  result handles, renders each event to XML, formats its message through a cached
  publisher-metadata handle and returns flat records.

  The embedding follows \<^verbatim>\<open>main.go\<close> function by function.
  \<^item> Go strings are byte lists (\<open>string\<close>).
  \<^item> \<^verbatim>\<open>int\<close> is a 64-bit word read as two's complement (windows/amd64), \<^verbatim>\<open>uint32\<close> a
    32-bit word, \<^verbatim>\<open>uintptr\<close>, \<^verbatim>\<open>windows.Handle\<close> and \<^verbatim>\<open>windows.Errno\<close> 64-bit words.
  \<^item> Every call into \<^verbatim>\<open>wevtapi.dll\<close> goes through \<open>syscall\<close>: the subsystem is a function
    from the history of calls and the present call to its reply, and the history (the
    trace) is threaded through the program, so that the calls a run makes can be counted.
  \<^item> An \<^verbatim>\<open>error\<close> return is \<open>Failed\<close>, a run-time panic is \<open>Panicked\<close>.
  \<^item> The batching loop of \<^verbatim>\<open>fetchEvents\<close> may run forever (the subsystem may keep
    answering with empty batches), so it takes fuel, and \<open>None\<close> means the fuel ran out.
  \<^item> \<^verbatim>\<open>encoding/xml\<close>, \<^verbatim>\<open>time.Parse\<close>, the UTF-16 decoder and the JSON encoder belong to
    Go's library and are parameters of the model (fields of \<open>env\<close>).
  \<^item> \<^verbatim>\<open>strings.TrimSpace\<close> and \<^verbatim>\<open>strings.ToLower\<close> follow the library's code: the ASCII
    path is written out, and a string with a byte from 0x80 on goes to the library's
    Unicode functions, which are parameters too. So nothing is fixed here about Unicode
    white space or Unicode case. \<^verbatim>\<open>strconv.Quote\<close> is written out for ASCII input, and
    it keeps a byte from 0x80 on as it is.
  \<^item> Memory is unbounded: \<^verbatim>\<open>make\<close> always succeeds. The library and its six procedures
    load. The mutex of the cache is left out, a run being single-threaded.
\<close>

subsection \<open>Machine types and constants\<close>

type_synonym uintptr = "64 word"
type_synonym handle = "64 word"
type_synonym errno = "64 word"
type_synonym uint32 = "32 word"
type_synonym uint16 = "16 word"
type_synonym goint = "64 word"
type_synonym time = int

definition evtQueryChannelPath :: uintptr where
  "evtQueryChannelPath = 0x1"

definition evtQueryTolerateQueryErrs :: uintptr where
  "evtQueryTolerateQueryErrs = 0x1000"

definition evtRenderEventXML :: uintptr where
  "evtRenderEventXML = 1"

definition evtFormatMessageEvent :: uintptr where
  "evtFormatMessageEvent = 1"

definition defaultLookbackMinutes :: goint where
  "defaultLookbackMinutes = 10"

definition defaultMaxEvents :: goint where
  "defaultMaxEvents = 256"

definition defaultLogName :: string where
  "defaultLogName = ''application''"

definition evtNextBatchSize :: uint32 where
  "evtNextBatchSize = 16"

definition ERROR_INSUFFICIENT_BUFFER :: errno where
  "ERROR_INSUFFICIENT_BUFFER = 122"

definition ERROR_NO_MORE_ITEMS :: errno where
  "ERROR_NO_MORE_ITEMS = 259"

subsection \<open>Errors and outcomes\<close>

text \<open>
  \<open>Errno e\<close> is a bare \<^verbatim>\<open>windows.Errno\<close>, \<open>Wrap p e\<close> is \<^verbatim>\<open>fmt.Errorf(p + ": %w", e)\<close>,
  \<open>EINVAL\<close> is what \<^verbatim>\<open>windows.UTF16PtrFromString\<close> returns for a string with a NUL byte,
  \<open>LibError m\<close> an error of the XML decoder or of \<^verbatim>\<open>time.Parse\<close>, and \<open>UnsupportedLog n\<close>
  the error of \<^verbatim>\<open>normalizeLogName\<close>.
\<close>

datatype error =
    Errno errno
  | Wrap string error
  | EINVAL
  | LibError string
  | UnsupportedLog string

datatype 'a outcome = Returned 'a | Failed error | Panicked string

subsection \<open>Library functions on strings\<close>

text \<open>
  The pieces of \<^verbatim>\<open>strings.ToLower\<close> and \<^verbatim>\<open>strings.TrimSpace\<close> that work on ASCII bytes:
  a byte below \<^verbatim>\<open>utf8.RuneSelf\<close> (0x80), the step \<^verbatim>\<open>c += 'a' - 'A'\<close> on an upper-case
  letter, and the table \<^verbatim>\<open>asciiSpace\<close>.
\<close>

definition belowRuneSelf :: "char \<Rightarrow> bool" where
  "belowRuneSelf c = ((of_char c :: nat) < 0x80)"

definition lowerASCII :: "char \<Rightarrow> char" where
  "lowerASCII c =
     (let n = (of_char c :: nat) in if 65 \<le> n \<and> n \<le> 90 then char_of (n + 32) else c)"

definition asciiSpace :: "char \<Rightarrow> bool" where
  "asciiSpace c =
     (c = CHR 0x09 \<or> c = CHR 0x0A \<or> c = CHR 0x0B \<or> c = CHR 0x0C \<or> c = CHR 0x0D \<or> c = CHR 0x20)"

definition hexDigit :: "nat \<Rightarrow> char" where
  "hexDigit d = ''0123456789abcdef'' ! (d mod 16)"

text \<open>
  \<^verbatim>\<open>strconv.Quote\<close>, one byte at a time: the quote and the backslash get a backslash,
  printable ASCII is kept, the seven named control characters have their letter, any other
  control character is \<^verbatim>\<open>\x\<close> and two hexadecimal digits.
\<close>

definition quoteByte :: "char \<Rightarrow> string" where
  "quoteByte c =
     (let n = (of_char c :: nat) in
      if c = CHR 0x22 \<or> c = CHR 0x5C then [CHR 0x5C, c]
      else if 0x20 \<le> n \<and> n < 0x7F then [c]
      else if n = 0x07 then [CHR 0x5C, CHR ''a'']
      else if n = 0x08 then [CHR 0x5C, CHR ''b'']
      else if n = 0x0C then [CHR 0x5C, CHR ''f'']
      else if n = 0x0A then [CHR 0x5C, CHR ''n'']
      else if n = 0x0D then [CHR 0x5C, CHR ''r'']
      else if n = 0x09 then [CHR 0x5C, CHR ''t'']
      else if n = 0x0B then [CHR 0x5C, CHR ''v'']
      else if n < 0x20 \<or> n = 0x7F then [CHR 0x5C, CHR ''x'', hexDigit (n div 16), hexDigit n]
      else [c])"

definition Quote :: "string \<Rightarrow> string" where
  "Quote s = [CHR 0x22] @ concat (map quoteByte s) @ [CHR 0x22]"

function decimal :: "nat \<Rightarrow> string" where
  "decimal n =
     (if n < 10 then [char_of (48 + n)] else decimal (n div 10) @ [char_of (48 + n mod 10)])"
  by pat_completeness auto
termination
  by (relation "measure id") auto

declare decimal.simps [simp del]

text \<open>The verb \<^verbatim>\<open>%d\<close> of \<^verbatim>\<open>fmt.Sprintf\<close> on an \<^verbatim>\<open>int\<close>.\<close>

definition formatInt :: "goint \<Rightarrow> string" where
  "formatInt i =
     (if sint i < 0 then CHR ''-'' # decimal (nat (- sint i)) else decimal (nat (sint i)))"

text \<open>
  \<^verbatim>\<open>windows.UTF16PtrFromString\<close> fails on a string with a NUL byte. The pointer it returns
  is modelled by the string itself.
\<close>

definition UTF16PtrFromString :: "string \<Rightarrow> error + string" where
  "UTF16PtrFromString s = (if CHR 0x00 \<in> set s then Inl EINVAL else Inr s)"

subsection \<open>Levels and the query expression\<close>

definition mapLevel :: "uint32 \<Rightarrow> string" where
  "mapLevel level =
     (if level = 2 then ''Error''
      else if level = 3 then ''Warning''
      else if level = 4 then ''Information''
      else ''Unknown'')"

definition buildQuery :: "goint \<Rightarrow> string \<Rightarrow> string" where
  "buildQuery ms provider =
     (if provider = ''''
      then ''*[System[TimeCreated[timediff(@SystemTime) <= '' @ formatInt ms @ '']]]''
      else let quotedProvider = Quote provider in
        ''*[System[Provider[@Name='' @ quotedProvider
          @ ''] and TimeCreated[timediff(@SystemTime) <= '' @ formatInt ms @ '']]]'')"

subsection \<open>The native subsystem\<close>

text \<open>
  A call into \<^verbatim>\<open>wevtapi.dll\<close> with the arguments that vary: \<open>EvtQuery path query flags\<close>,
  \<open>EvtNext hQuery batch\<close> (the timeout is 2000 ms), \<open>EvtRender hEvt flags bufferSize\<close>,
  \<open>EvtClose h\<close>, \<open>EvtOpenPublisherMetadata provider\<close> and
  \<open>EvtFormatMessage meta hEvt flags bufferSize\<close>.
\<close>

datatype call =
    EvtQuery string string uintptr
  | EvtNext handle uint32
  | EvtRender handle uintptr uint32
  | EvtClose handle
  | EvtOpenPublisherMetadata string
  | EvtFormatMessage handle handle uintptr uint32

text \<open>
  What a call gives back: \<open>ret\<close> is the first result of \<^verbatim>\<open>Call\<close>, \<open>lastErr\<close> its error
  (always a \<^verbatim>\<open>windows.Errno\<close>, so the type assertions of the source succeed),
  \<open>outCount\<close> the number stored through the \<^verbatim>\<open>uint32\<close> out-pointer (\<^verbatim>\<open>bufferUsed\<close>,
  \<^verbatim>\<open>used\<close>, \<^verbatim>\<open>returned\<close>), \<open>outBuffer\<close> the code units stored in the caller's buffer and
  \<open>outHandles\<close> the handles stored in the caller's array, both from index 0.
\<close>

record reply =
  ret :: uintptr
  lastErr :: errno
  outCount :: uint32
  outBuffer :: "uint16 list"
  outHandles :: "handle list"

type_synonym trace = "(call \<times> reply) list"

record eventXML =
  ProviderName :: string
  EventID :: uint32
  Level :: uint32
  SystemTime :: string

record eventRecord =
  TimeGenerated :: time
  LevelText :: string
  EventId :: uint32
  Source :: string
  Message :: string

record env =
  native :: "trace \<Rightarrow> call \<Rightarrow> reply"
  xml_Unmarshal :: "string \<Rightarrow> string + eventXML"
  time_Parse :: "string \<Rightarrow> string + time"
  utf16_decode :: "uint16 list \<Rightarrow> string"
  json_Encode :: "eventRecord list \<Rightarrow> string + string"
  unicode_TrimFunc :: "string \<Rightarrow> string"
  unicode_TrimRightFunc :: "string \<Rightarrow> string"
  unicode_ToLower :: "string \<Rightarrow> string"

text \<open>
  \<^verbatim>\<open>strings.TrimSpace\<close>, as Go's library has it: ASCII white space is skipped from the left;
  a byte from 0x80 on met there hands the rest to \<^verbatim>\<open>TrimFunc(s[start:], unicode.IsSpace)\<close>;
  otherwise ASCII white space is skipped from the right, and a byte from 0x80 on met there
  hands the slice to \<^verbatim>\<open>TrimRightFunc(s[start:stop], unicode.IsSpace)\<close>. The two Unicode
  functions are the fields \<open>unicode_TrimFunc\<close> and \<open>unicode_TrimRightFunc\<close>.
\<close>

definition TrimSpace :: "env \<Rightarrow> string \<Rightarrow> string" where
  "TrimSpace E s =
     (case dropWhile asciiSpace s of
        [] \<Rightarrow> []
      | c # rest \<Rightarrow>
          if \<not> belowRuneSelf c then unicode_TrimFunc E (c # rest)
          else (case dropWhile asciiSpace (rev (c # rest)) of
                  [] \<Rightarrow> []
                | d # front \<Rightarrow>
                    if \<not> belowRuneSelf d then unicode_TrimRightFunc E (rev (d # front))
                    else rev (d # front)))"

text \<open>
  \<^verbatim>\<open>strings.ToLower\<close>: a string of ASCII bytes is lower-cased byte by byte; any other
  string goes to \<^verbatim>\<open>Map(unicode.ToLower, s)\<close>, the field \<open>unicode_ToLower\<close>.
\<close>

definition ToLower :: "env \<Rightarrow> string \<Rightarrow> string" where
  "ToLower E s = (if list_all belowRuneSelf s then map lowerASCII s else unicode_ToLower E s)"

subsection \<open>Channel names\<close>

definition normalizeLogName :: "env \<Rightarrow> string \<Rightarrow> error + string" where
  "normalizeLogName E name =
     (let k = ToLower E (TrimSpace E name) in
      if k = ''application'' \<or> k = '''' then Inr ''Application''
      else if k = ''system'' then Inr ''System''
      else if k = ''setup'' then Inr ''Setup''
      else Inl (UnsupportedLog name))"

definition syscall :: "env \<Rightarrow> call \<Rightarrow> trace \<Rightarrow> reply \<times> trace" where
  "syscall E c t = (let rep = native E t c in (rep, t @ [(c, rep)]))"

text \<open>
  A caller's array of \<open>n\<close> zeroed elements after the subsystem has stored \<open>xs\<close> in it.
\<close>

definition stored :: "nat \<Rightarrow> 'a::zero list \<Rightarrow> 'a list" where
  "stored n xs = take n (xs @ replicate n 0)"

text \<open>\<^verbatim>\<open>windows.UTF16ToString\<close> decodes the code units before the first NUL.\<close>

definition UTF16ToString :: "env \<Rightarrow> uint16 list \<Rightarrow> string" where
  "UTF16ToString E buf = utf16_decode E (takeWhile (\<lambda>u. u \<noteq> 0) buf)"

definition evtCloseHandle :: "env \<Rightarrow> handle \<Rightarrow> trace \<Rightarrow> trace" where
  "evtCloseHandle E h t = (if h = 0 then t else snd (syscall E (EvtClose h) t))"

definition evtQuery :: "env \<Rightarrow> string \<Rightarrow> string \<Rightarrow> trace \<Rightarrow> (error + handle) \<times> trace" where
  "evtQuery E path query t =
     (let (rep, t1) = syscall E (EvtQuery path query (or evtQueryChannelPath evtQueryTolerateQueryErrs)) t in
      if ret rep = 0 then (Inl (Wrap ''EvtQuery'' (Errno (lastErr rep))), t1)
      else (Inr (ret rep), t1))"

definition evtNextBatch :: "env \<Rightarrow> handle \<Rightarrow> uint32 \<Rightarrow> trace \<Rightarrow> handle list outcome \<times> trace" where
  "evtNextBatch E hQuery batch t =
     (if batch = 0 then (Panicked ''index out of range [0] with length 0'', t)
      else let (rep, t1) = syscall E (EvtNext hQuery batch) t; returned = outCount rep in
        if ret rep = 0 then
          (if lastErr rep = ERROR_NO_MORE_ITEMS then (Failed (Errno ERROR_NO_MORE_ITEMS), t1)
           else (Failed (Wrap ''EvtNext'' (Errno (lastErr rep))), t1))
        else if unat batch < unat returned then (Panicked ''slice bounds out of range'', t1)
        else (Returned (take (unat returned) (stored (unat batch) (outHandles rep))), t1))"

subsection \<open>The two-phase calls\<close>

definition renderEventXML :: "env \<Rightarrow> handle \<Rightarrow> trace \<Rightarrow> string outcome \<times> trace" where
  "renderEventXML E hEvt t =
     (let (rep1, t1) = syscall E (EvtRender hEvt evtRenderEventXML 0) t in
      if ret rep1 = 0 \<and> lastErr rep1 \<noteq> ERROR_INSUFFICIENT_BUFFER
      then (Failed (Wrap ''EvtRender(size)'' (Errno (lastErr rep1))), t1)
      else let bufferUsed = outCount rep1 in
        if unat bufferUsed = 0 then (Panicked ''index out of range [0] with length 0'', t1)
        else let (rep2, t2) = syscall E (EvtRender hEvt evtRenderEventXML bufferUsed) t1;
                 buffer = stored (unat bufferUsed) (outBuffer rep2) in
          if ret rep2 = 0 then (Failed (Wrap ''EvtRender'' (Errno (lastErr rep2))), t2)
          else (Returned (UTF16ToString E buffer), t2))"

definition formatMessage :: "env \<Rightarrow> handle \<Rightarrow> handle \<Rightarrow> trace \<Rightarrow> string outcome \<times> trace" where
  "formatMessage E meta hEvt t =
     (let (rep1, t1) = syscall E (EvtFormatMessage meta hEvt evtFormatMessageEvent 0) t in
      if ret rep1 = 0 \<and> lastErr rep1 \<noteq> ERROR_INSUFFICIENT_BUFFER
      then (Failed (Wrap ''EvtFormatMessage(size)'' (Errno (lastErr rep1))), t1)
      else let used = outCount rep1 in
        if unat used = 0 then (Panicked ''index out of range [0] with length 0'', t1)
        else let (rep2, t2) = syscall E (EvtFormatMessage meta hEvt evtFormatMessageEvent used) t1;
                 buf = stored (unat used) (outBuffer rep2) in
          if ret rep2 = 0 then (Failed (Wrap ''EvtFormatMessage'' (Errno (lastErr rep2))), t2)
          else (Returned (TrimSpace E (UTF16ToString E buf)), t2))"

subsection \<open>The publisher metadata cache\<close>

text \<open>
  The map of the cache is an association list with at most one entry for a key; a nil map
  is the empty list. \<^verbatim>\<open>close\<close> ranges over the map in an order Go leaves open; the model
  takes the order of insertion.
\<close>

type_synonym publisherCache = "(string \<times> handle) list"

fun assign :: "string \<Rightarrow> handle \<Rightarrow> publisherCache \<Rightarrow> publisherCache" where
  "assign k v [] = [(k, v)]"
| "assign k v (p # ps) = (if fst p = k then (k, v) # ps else p # assign k v ps)"

definition publisherCache_get ::
  "env \<Rightarrow> string \<Rightarrow> publisherCache \<Rightarrow> trace \<Rightarrow> (error + handle) \<times> publisherCache \<times> trace" where
  "publisherCache_get E provider c t =
     (case map_of c provider of
        Some h \<Rightarrow> (Inr h, c, t)
      | None \<Rightarrow>
          (case UTF16PtrFromString provider of
             Inl e \<Rightarrow> (Inl (Wrap ''publisher UTF16'' e), c, t)
           | Inr ptr \<Rightarrow>
               (let (rep, t1) = syscall E (EvtOpenPublisherMetadata ptr) t in
                if ret rep = 0
                then (Inl (Wrap ''EvtOpenPublisherMetadata'' (Errno (lastErr rep))), c, t1)
                else (Inr (ret rep), assign provider (ret rep) c, t1))))"

fun publisherCache_close :: "env \<Rightarrow> publisherCache \<Rightarrow> trace \<Rightarrow> publisherCache \<times> trace" where
  "publisherCache_close E [] t = ([], t)"
| "publisherCache_close E ((k, h) # c) t = publisherCache_close E c (evtCloseHandle E h t)"

subsection \<open>One event\<close>

definition parseEvent ::
  "env \<Rightarrow> handle \<Rightarrow> publisherCache \<Rightarrow> trace \<Rightarrow> eventRecord outcome \<times> publisherCache \<times> trace" where
  "parseEvent E hEvt c t =
     (case renderEventXML E hEvt t of
        (Panicked m, t1) \<Rightarrow> (Panicked m, c, t1)
      | (Failed e, t1) \<Rightarrow> (Failed e, c, t1)
      | (Returned xmlText, t1) \<Rightarrow>
          (case xml_Unmarshal E xmlText of
             Inl m \<Rightarrow> (Failed (Wrap ''parse XML'' (LibError m)), c, t1)
           | Inr parsed \<Rightarrow>
               (case time_Parse E (SystemTime parsed) of
                  Inl m \<Rightarrow> (Failed (Wrap ''parse time'' (LibError m)), c, t1)
                | Inr timestamp \<Rightarrow>
                    (let levelText = mapLevel (Level parsed); source = ProviderName parsed in
                     case publisherCache_get E source c t1 of
                       (Inl e, c2, t2) \<Rightarrow> (Failed e, c2, t2)
                     | (Inr meta, c2, t2) \<Rightarrow>
                         (case formatMessage E meta hEvt t2 of
                            (Panicked m, t3) \<Rightarrow> (Panicked m, c2, t3)
                          | (Failed e, t3) \<Rightarrow> (Failed e, c2, t3)
                          | (Returned msg, t3) \<Rightarrow>
                              (Returned \<lparr>TimeGenerated = timestamp, LevelText = levelText,
                                 EventId = EventID parsed, Source = source, Message = msg\<rparr>,
                               c2, t3))))))"

subsection \<open>The collection\<close>

text \<open>
  The inner loop of \<^verbatim>\<open>fetchEvents\<close>, over the handles of one batch. It ends with
  \<open>Returned\<close> and the results so far when the handles are used up or when the cap is
  reached (\<^verbatim>\<open>break\<close>), with \<open>Failed\<close> where the source returns the error, and with
  \<open>Panicked\<close> when \<^verbatim>\<open>parseEvent\<close> panics, before the handle is closed.
\<close>

fun forHandles ::
  "env \<Rightarrow> goint \<Rightarrow> handle list \<Rightarrow> eventRecord list \<Rightarrow> publisherCache \<Rightarrow> trace
     \<Rightarrow> eventRecord list outcome \<times> publisherCache \<times> trace" where
  "forHandles E maxEvents [] results c t = (Returned results, c, t)"
| "forHandles E maxEvents (hEvt # handles) results c t =
     (case parseEvent E hEvt c t of
        (Panicked m, c1, t1) \<Rightarrow> (Panicked m, c1, t1)
      | (Failed e, c1, t1) \<Rightarrow> (Failed e, c1, evtCloseHandle E hEvt t1)
      | (Returned rec, c1, t1) \<Rightarrow>
          (let t2 = evtCloseHandle E hEvt t1; results' = results @ [rec] in
           if sint maxEvents \<le> int (length results') then (Returned results', c1, t2)
           else forHandles E maxEvents handles results' c1 t2))"

text \<open>
  The outer loop, \<^verbatim>\<open>for len(results) < maxEvents\<close>. The first argument is the fuel: the
  number of batches the loop may still request.
\<close>

fun forResults ::
  "nat \<Rightarrow> env \<Rightarrow> goint \<Rightarrow> handle \<Rightarrow> eventRecord list \<Rightarrow> publisherCache \<Rightarrow> trace
     \<Rightarrow> eventRecord list outcome option \<times> publisherCache \<times> trace" where
  "forResults 0 E maxEvents hQuery results c t =
     (if int (length results) < sint maxEvents then (None, c, t)
      else (Some (Returned results), c, t))"
| "forResults (Suc n) E maxEvents hQuery results c t =
     (if int (length results) < sint maxEvents then
        (case evtNextBatch E hQuery evtNextBatchSize t of
           (Failed err, t1) \<Rightarrow>
             (if err = Errno ERROR_NO_MORE_ITEMS then (Some (Returned results), c, t1)
              else (Some (Failed err), c, t1))
         | (Panicked m, t1) \<Rightarrow> (Some (Panicked m), c, t1)
         | (Returned handles, t1) \<Rightarrow>
             (case forHandles E maxEvents handles results c t1 of
                (Returned results', c2, t2) \<Rightarrow> forResults n E maxEvents hQuery results' c2 t2
              | (Failed e, c2, t2) \<Rightarrow> (Some (Failed e), c2, t2)
              | (Panicked m, c2, t2) \<Rightarrow> (Some (Panicked m), c2, t2)))
      else (Some (Returned results), c, t))"

text \<open>
  \<^verbatim>\<open>fetchEvents\<close>. The two deferred calls run when the function is left, the cache first,
  also when it is left by a panic.
\<close>

definition fetchEvents ::
  "nat \<Rightarrow> env \<Rightarrow> string \<Rightarrow> string \<Rightarrow> goint \<Rightarrow> goint \<Rightarrow> trace
     \<Rightarrow> eventRecord list outcome option \<times> trace" where
  "fetchEvents fuel E logName provider minutes0 maxEvents0 t =
     (let minutes = (if sint minutes0 \<le> 0 then defaultLookbackMinutes else minutes0);
          maxEvents = (if sint maxEvents0 \<le> 0 then defaultMaxEvents else maxEvents0);
          ms = minutes * 60 * 1000;
          queryStr = buildQuery ms provider in
      case UTF16PtrFromString queryStr of
        Inl e \<Rightarrow> (Some (Failed (Wrap ''query UTF16'' e)), t)
      | Inr queryPtr \<Rightarrow>
          (case UTF16PtrFromString logName of
             Inl e \<Rightarrow> (Some (Failed (Wrap ''path UTF16'' e)), t)
           | Inr pathPtr \<Rightarrow>
               (case evtQuery E pathPtr queryPtr t of
                  (Inl e, t1) \<Rightarrow> (Some (Failed e), t1)
                | (Inr hQuery, t1) \<Rightarrow>
                    (case forResults fuel E maxEvents hQuery [] [] t1 of
                       (out, c, t2) \<Rightarrow>
                         (let (c', t3) = publisherCache_close E c t2;
                              t4 = evtCloseHandle E hQuery t3 in
                          (out, t4))))))"

text \<open>
  \<^verbatim>\<open>main\<close>, after \<^verbatim>\<open>flag.Parse\<close>: the four flags are its arguments. It ends by printing the
  records as JSON (\<open>Printed\<close>), by \<^verbatim>\<open>os.Exit(2)\<close> after printing an error (\<open>Exit2\<close>), or by
  a panic that nothing recovers (\<open>Crashed\<close>).
\<close>

datatype ending = Printed string | Exit2 error | Crashed string

definition report ::
  "env \<Rightarrow> eventRecord list outcome option \<times> trace \<Rightarrow> ending option \<times> trace" where
  "report E r =
     (case r of
        (None, t) \<Rightarrow> (None, t)
      | (Some (Returned events), t) \<Rightarrow>
          (case json_Encode E events of
             Inl m \<Rightarrow> (Some (Exit2 (Wrap ''failed to encode JSON'' (LibError m))), t)
           | Inr text \<Rightarrow> (Some (Printed text), t))
      | (Some (Failed err), t) \<Rightarrow> (Some (Exit2 err), t)
      | (Some (Panicked m), t) \<Rightarrow> (Some (Crashed m), t))"

definition main ::
  "nat \<Rightarrow> env \<Rightarrow> goint \<Rightarrow> goint \<Rightarrow> string \<Rightarrow> string \<Rightarrow> trace \<Rightarrow> ending option \<times> trace" where
  "main fuel E minutes maxEvents logName provider t =
     (case normalizeLogName E logName of
        Inl err \<Rightarrow> (Some (Exit2 err), t)
      | Inr channel \<Rightarrow>
          report E (fetchEvents fuel E channel (TrimSpace E provider) minutes maxEvents t))"

subsection \<open>A scripted subsystem\<close>

text \<open>
  The subsystem of the batch scenario: the query opens as handle 100; the first
  \<^verbatim>\<open>EvtNext\<close> stores the handles 1, 2, 3, the second 4, 5, every later one reports
  \<^verbatim>\<open>ERROR_NO_MORE_ITEMS\<close>; a size-discovery call reports \<^verbatim>\<open>ERROR_INSUFFICIENT_BUFFER\<close> and
  the size, the fill call stores the text; every provider opens as handle 200. Its library
  functions are stubs; the Unicode ones are never reached, every string of the scenario
  being ASCII.
\<close>

definition success :: reply where
  "success = \<lparr>ret = 1, lastErr = 0, outCount = 0, outBuffer = [], outHandles = []\<rparr>"

definition failure :: "errno \<Rightarrow> reply" where
  "failure e = \<lparr>ret = 0, lastErr = e, outCount = 0, outBuffer = [], outHandles = []\<rparr>"

definition isEvtNext :: "call \<times> reply \<Rightarrow> bool" where
  "isEvtNext x = (case fst x of EvtNext h b \<Rightarrow> True | _ \<Rightarrow> False)"

fun scripted :: "trace \<Rightarrow> call \<Rightarrow> reply" where
  "scripted t (EvtQuery path query flags) = success\<lparr>ret := 100\<rparr>"
| "scripted t (EvtNext h batch) =
     (let k = length (filter isEvtNext t) in
      if k = 0 then success\<lparr>outCount := 3, outHandles := [1, 2, 3]\<rparr>
      else if k = 1 then success\<lparr>outCount := 2, outHandles := [4, 5]\<rparr>
      else failure ERROR_NO_MORE_ITEMS)"
| "scripted t (EvtRender h flags bufferSize) =
     (if bufferSize = 0 then (failure ERROR_INSUFFICIENT_BUFFER)\<lparr>outCount := 5\<rparr>
      else success\<lparr>outCount := 5, outBuffer := [0x3C, 0x65, 0x2F, 0x3E, 0]\<rparr>)"
| "scripted t (EvtClose h) = success"
| "scripted t (EvtOpenPublisherMetadata provider) = success\<lparr>ret := 200\<rparr>"
| "scripted t (EvtFormatMessage meta h flags bufferSize) =
     (if bufferSize = 0 then (failure ERROR_INSUFFICIENT_BUFFER)\<lparr>outCount := 4\<rparr>
      else success\<lparr>outCount := 4, outBuffer := [0x6F, 0x6B, 0x20, 0]\<rparr>)"

definition scriptedEnv :: env where
  "scriptedEnv =
     \<lparr>native = scripted,
      xml_Unmarshal = (\<lambda>s. Inr \<lparr>ProviderName = ''svc'', EventID = 7, Level = 2,
                                SystemTime = ''2024-01-01T00:00:00Z''\<rparr>),
      time_Parse = (\<lambda>s. Inr 1704067200000000000),
      utf16_decode = map (\<lambda>u. char_of (unat u)),
      json_Encode = (\<lambda>events. Inr ''[]''),
      unicode_TrimFunc = (\<lambda>s. s),
      unicode_TrimRightFunc = (\<lambda>s. s),
      unicode_ToLower = (\<lambda>s. s)\<rparr>"

definition closedHandles :: "trace \<Rightarrow> handle list" where
  "closedHandles t = concat (map (\<lambda>x. case fst x of EvtClose h \<Rightarrow> [h] | _ \<Rightarrow> []) t)"

definition scriptedRecord :: eventRecord where
  "scriptedRecord =
     \<lparr>TimeGenerated = 1704067200000000000, LevelText = ''Error'', EventId = 7,
      Source = ''svc'', Message = ''ok''\<rparr>"

text \<open>The four calls that one event of the scripted subsystem costs once its provider is cached.\<close>

definition eventCalls :: "handle \<Rightarrow> trace" where
  "eventCalls h =
     [(EvtRender h 1 0, (failure 122)\<lparr>outCount := 5\<rparr>),
      (EvtRender h 1 5, success\<lparr>outCount := 5, outBuffer := [0x3C, 0x65, 0x2F, 0x3E, 0]\<rparr>),
      (EvtFormatMessage 200 h 1 0, (failure 122)\<lparr>outCount := 4\<rparr>),
      (EvtFormatMessage 200 h 1 4, success\<lparr>outCount := 4, outBuffer := [0x6F, 0x6B, 0x20, 0]\<rparr>)]"

subsection \<open>Counting metadata handles\<close>

text \<open>
  \<open>opened p t\<close> is the number of metadata handles that the calls of the trace \<open>t\<close> have
  opened for the provider \<open>p\<close>. \<open>cacheInv t0 c t\<close> relates the cache \<open>c\<close> and the trace
  \<open>t\<close> of a run that began at the trace \<open>t0\<close>: the cache has one entry for a key, and the
  run has opened one handle for a provider in the cache and none for any other.
\<close>

definition opened :: "string \<Rightarrow> trace \<Rightarrow> nat" where
  "opened p t =
     length (filter (\<lambda>x. fst x = EvtOpenPublisherMetadata p \<and> ret (snd x) \<noteq> 0) t)"

definition cacheInv :: "trace \<Rightarrow> publisherCache \<Rightarrow> trace \<Rightarrow> bool" where
  "cacheInv t0 c t =
     (distinct (map fst c) \<and>
      (\<forall>p. opened p t = opened p t0 + (if p \<in> fst ` set c then 1 else 0)))"

subsection \<open>Further subsystems and predicates of the properties\<close>

text \<open>
  Three more subsystems: every call fails with the error \<open>e\<close>; every call succeeds and
  stores nothing; every call reports \<^verbatim>\<open>ERROR_INSUFFICIENT_BUFFER\<close> and the size \<open>n\<close>.
\<close>

definition failing :: "errno \<Rightarrow> env" where
  "failing e = scriptedEnv\<lparr>native := (\<lambda>t c. failure e)\<rparr>"

definition succeeding :: env where
  "succeeding = scriptedEnv\<lparr>native := (\<lambda>t c. success)\<rparr>"

definition tooSmall :: "uint32 \<Rightarrow> env" where
  "tooSmall n = scriptedEnv\<lparr>native := (\<lambda>t c. (failure ERROR_INSUFFICIENT_BUFFER)\<lparr>outCount := n\<rparr>)\<rparr>"



text \<open>
  A subsystem makes progress when no \<^verbatim>\<open>EvtNext\<close> of the fixed batch size succeeds with zero
  handles.
\<close>

definition neverEmpty :: "env \<Rightarrow> bool" where
  "neverEmpty E =
     (\<forall>t hQuery. ret (native E t (EvtNext hQuery evtNextBatchSize)) = 0
        \<or> outCount (native E t (EvtNext hQuery evtNextBatchSize)) \<noteq> 0)"

text \<open>
  The string literal of XPath 1.0, the language of an event-log query (production 29 of the
  recommendation): a double quote, characters other than the double quote, a double quote,
  or the same with the apostrophe. The language has no escape character.
\<close>

definition xpathLiteral :: "string \<Rightarrow> bool" where
  "xpathLiteral s =
     (case s of
        [] \<Rightarrow> False
      | q # rest \<Rightarrow>
          (q = CHR 0x22 \<or> q = CHR 0x27) \<and> rest \<noteq> [] \<and> last rest = q \<and> q \<notin> set (butlast rest))"

section \<open>Properties\<close>

subsection \<open>Traces, the cache and the loops\<close>


lemma opened_append: "opened p (t @ u) = opened p t + opened p u"
  by (simp add: opened_def)

lemma opened_render: "renderEventXML E h t = (r, t') \<Longrightarrow> opened p t' = opened p t"
  by (auto simp: renderEventXML_def syscall_def Let_def opened_def split: if_splits prod.splits)

lemma opened_format: "formatMessage E m h t = (r, t') \<Longrightarrow> opened p t' = opened p t"
  by (auto simp: formatMessage_def syscall_def Let_def opened_def split: if_splits prod.splits)

lemma opened_close: "opened p (evtCloseHandle E h t) = opened p t"
  by (simp add: evtCloseHandle_def syscall_def Let_def opened_def)

lemma opened_next: "evtNextBatch E hq b t = (r, t') \<Longrightarrow> opened p t' = opened p t"
  by (auto simp: evtNextBatch_def syscall_def Let_def opened_def split: if_splits prod.splits)

lemma map_of_assign: "map_of (assign k v c) = (map_of c)(k \<mapsto> v)"
  by (induction c) auto

lemma keys_assign: "fst ` set (assign k v c) = insert k (fst ` set c)"
  by (induction c) auto

lemma distinct_assign: "distinct (map fst c) \<Longrightarrow> distinct (map fst (assign k v c))"
  by (induction c) (auto simp: keys_assign)

lemma get_cached: "map_of c p = Some h \<Longrightarrow> publisherCache_get E p c t = (Inr h, c, t)"
  by (simp add: publisherCache_get_def)

lemma get_keeps:
  "publisherCache_get E p c t = (r, c', t') \<Longrightarrow> map_of c q = Some h \<Longrightarrow> map_of c' q = Some h"
  by (auto simp: publisherCache_get_def Let_def map_of_assign split: option.splits sum.splits prod.splits if_splits)

lemma get_result:
  "publisherCache_get E p c t = (Inr h, c', t') \<Longrightarrow> map_of c' p = Some h"
  by (auto simp: publisherCache_get_def Let_def map_of_assign split: option.splits sum.splits prod.splits if_splits)

lemma get_inv:
  assumes "publisherCache_get E p c t = (r, c', t')" and "cacheInv t0 c t"
  shows "cacheInv t0 c' t'"
proof (cases "map_of c p")
  case (Some h)
  with assms show ?thesis by (simp add: publisherCache_get_def)
next
  case None
  then have notin: "p \<notin> fst ` set c" by (simp add: map_of_eq_None_iff)
  show ?thesis
  proof (cases "UTF16PtrFromString p")
    case (Inl e)
    with None assms show ?thesis by (simp add: publisherCache_get_def)
  next
    case (Inr ptr)
    then have ptr: "ptr = p" by (simp add: UTF16PtrFromString_def split: if_splits)
    define rep where "rep = native E t (EvtOpenPublisherMetadata p)"
    show ?thesis
    proof (cases "ret rep = 0")
      case True
      with None Inr ptr assms(1) have "c' = c" "t' = t @ [(EvtOpenPublisherMetadata p, rep)]"
        by (simp_all add: publisherCache_get_def syscall_def Let_def rep_def)
      with True assms(2) show ?thesis by (simp add: cacheInv_def opened_def)
    next
      case False
      with None Inr ptr assms(1)
      have "c' = assign p (ret rep) c" "t' = t @ [(EvtOpenPublisherMetadata p, rep)]"
        by (simp_all add: publisherCache_get_def syscall_def Let_def rep_def)
      with False assms(2) notin show ?thesis
        by (auto simp: cacheInv_def opened_def distinct_assign keys_assign)
    qed
  qed
qed


lemma parseEvent_keeps:
  "parseEvent E h c t = (r, c', t') \<Longrightarrow> map_of c q = Some m \<Longrightarrow> map_of c' q = Some m"
  by (auto simp: parseEvent_def Let_def split: prod.splits outcome.splits sum.splits dest: get_keeps)

lemma parseEvent_inv:
  assumes "parseEvent E h c t = (r, c', t')" and "cacheInv t0 c t"
  shows "cacheInv t0 c' t'"
proof -
  obtain r1 t1 where R: "renderEventXML E h t = (r1, t1)" by force
  then have I1: "cacheInv t0 c t1"
    using assms(2) opened_render [OF R] by (simp add: cacheInv_def)
  show ?thesis
  proof (cases "\<exists>xmlText parsed timestamp. r1 = Returned xmlText \<and> xml_Unmarshal E xmlText = Inr parsed
                  \<and> time_Parse E (SystemTime parsed) = Inr timestamp")
    case False
    with assms(1) R have "c' = c \<and> t' = t1"
      by (auto simp: parseEvent_def split: outcome.splits sum.splits)
    with I1 show ?thesis by simp
  next
    case True
    then obtain xmlText parsed timestamp where
      P: "r1 = Returned xmlText" "xml_Unmarshal E xmlText = Inr parsed"
         "time_Parse E (SystemTime parsed) = Inr timestamp" by blast
    obtain g c2 t2 where G: "publisherCache_get E (ProviderName parsed) c t1 = (g, c2, t2)"
      using prod_cases3 by blast
    have I2: "cacheInv t0 c2 t2" using get_inv [OF G I1] .
    show ?thesis
    proof (cases g)
      case (Inl e)
      with assms(1) R P G have "c' = c2 \<and> t' = t2"
        by (simp add: parseEvent_def Let_def)
      with I2 show ?thesis by simp
    next
      case (Inr meta)
      obtain f t3 where F: "formatMessage E meta h t2 = (f, t3)" by force
      with assms(1) R P G Inr have "c' = c2 \<and> t' = t3"
        by (auto simp: parseEvent_def Let_def split: outcome.splits)
      with I2 opened_format [OF F] show ?thesis by (simp add: cacheInv_def)
    qed
  qed
qed

lemma close_inv: "cacheInv t0 c t \<Longrightarrow> cacheInv t0 c (evtCloseHandle E h t)"
  by (simp add: cacheInv_def opened_close)

lemma forHandles_inv:
  "forHandles E M hs rs c t = (r, c', t') \<Longrightarrow> cacheInv t0 c t \<Longrightarrow> cacheInv t0 c' t'"
proof (induction hs arbitrary: rs c t)
  case Nil
  then show ?case by simp
next
  case (Cons h hs)
  obtain p c1 t1 where P: "parseEvent E h c t = (p, c1, t1)" using prod_cases3 by blast
  have I1: "cacheInv t0 c1 t1" using parseEvent_inv [OF P Cons.prems(2)] .
  show ?case
  proof (cases p)
    case (Returned rec)
    show ?thesis
    proof (cases "sint M \<le> int (length (rs @ [rec]))")
      case True
      with Cons.prems(1) P Returned have "c' = c1 \<and> t' = evtCloseHandle E h t1"
        by (simp add: Let_def)
      with I1 show ?thesis by (simp add: close_inv)
    next
      case False
      with Cons.prems(1) P Returned
      have "forHandles E M hs (rs @ [rec]) c1 (evtCloseHandle E h t1) = (r, c', t')"
        by (simp add: Let_def)
      then show ?thesis using Cons.IH close_inv [OF I1] by blast
    qed
  next
    case (Failed e)
    with Cons.prems(1) P have "c' = c1 \<and> t' = evtCloseHandle E h t1" by simp
    with I1 show ?thesis by (simp add: close_inv)
  next
    case (Panicked m)
    with Cons.prems(1) P have "c' = c1 \<and> t' = t1" by simp
    with I1 show ?thesis by simp
  qed
qed

lemma forHandles_keeps:
  "forHandles E M hs rs c t = (r, c', t') \<Longrightarrow> map_of c q = Some m \<Longrightarrow> map_of c' q = Some m"
proof (induction hs arbitrary: rs c t)
  case Nil
  then show ?case by simp
next
  case (Cons h hs)
  obtain p c1 t1 where P: "parseEvent E h c t = (p, c1, t1)" using prod_cases3 by blast
  have K: "map_of c1 q = Some m" using parseEvent_keeps [OF P Cons.prems(2)] .
  show ?case
  proof (cases p)
    case (Returned rec)
    show ?thesis
    proof (cases "sint M \<le> int (length (rs @ [rec]))")
      case True
      with Cons.prems(1) P Returned have "c' = c1" by (simp add: Let_def)
      with K show ?thesis by simp
    next
      case False
      with Cons.prems(1) P Returned
      have "forHandles E M hs (rs @ [rec]) c1 (evtCloseHandle E h t1) = (r, c', t')"
        by (simp add: Let_def)
      then show ?thesis using Cons.IH K by blast
    qed
  next
    case (Failed e)
    with Cons.prems(1) P K show ?thesis by simp
  next
    case (Panicked m)
    with Cons.prems(1) P K show ?thesis by simp
  qed
qed

lemma next_inv: "evtNextBatch E hq b t = (r, t') \<Longrightarrow> cacheInv t0 c t \<Longrightarrow> cacheInv t0 c t'"
  using opened_next by (simp add: cacheInv_def)

lemma forResults_inv:
  "forResults n E M hq rs c t = (out, c', t') \<Longrightarrow> cacheInv t0 c t \<Longrightarrow> cacheInv t0 c' t'"
proof (induction n arbitrary: rs c t)
  case 0
  then show ?case by (simp split: if_splits)
next
  case (Suc n)
  show ?case
  proof (cases "int (length rs) < sint M")
    case False
    with Suc.prems show ?thesis by simp
  next
    case True
    obtain b t1 where B: "evtNextBatch E hq evtNextBatchSize t = (b, t1)" by force
    have I1: "cacheInv t0 c t1" using next_inv [OF B Suc.prems(2)] .
    show ?thesis
    proof (cases b)
      case (Returned handles)
      obtain r c2 t2 where H: "forHandles E M handles rs c t1 = (r, c2, t2)"
        using prod_cases3 by blast
      have I2: "cacheInv t0 c2 t2" using forHandles_inv [OF H I1] .
      show ?thesis
      proof (cases r)
        case (Returned rs')
        with Suc.prems(1) True B \<open>b = Returned handles\<close> H
        have "forResults n E M hq rs' c2 t2 = (out, c', t')" by simp
        then show ?thesis using Suc.IH I2 by blast
      next
        case (Failed e)
        with Suc.prems(1) True B \<open>b = Returned handles\<close> H I2 show ?thesis by simp
      next
        case (Panicked m)
        with Suc.prems(1) True B \<open>b = Returned handles\<close> H I2 show ?thesis by simp
      qed
    next
      case (Failed e)
      with Suc.prems(1) True B I1 show ?thesis by (simp split: if_splits)
    next
      case (Panicked m)
      with Suc.prems(1) True B I1 show ?thesis by simp
    qed
  qed
qed


lemma forResults_keeps:
  "forResults n E M hq rs c t = (out, c', t') \<Longrightarrow> map_of c q = Some m \<Longrightarrow> map_of c' q = Some m"
proof (induction n arbitrary: rs c t)
  case 0
  then show ?case by (simp split: if_splits)
next
  case (Suc n)
  show ?case
  proof (cases "int (length rs) < sint M")
    case False
    with Suc.prems show ?thesis by simp
  next
    case True
    obtain b t1 where B: "evtNextBatch E hq evtNextBatchSize t = (b, t1)" by force
    show ?thesis
    proof (cases b)
      case (Returned handles)
      obtain r c2 t2 where H: "forHandles E M handles rs c t1 = (r, c2, t2)"
        using prod_cases3 by blast
      have K: "map_of c2 q = Some m" using forHandles_keeps [OF H Suc.prems(2)] .
      show ?thesis
      proof (cases r)
        case (Returned rs')
        with Suc.prems(1) True B \<open>b = Returned handles\<close> H
        have "forResults n E M hq rs' c2 t2 = (out, c', t')" by simp
        then show ?thesis using Suc.IH K by blast
      next
        case (Failed e)
        with Suc.prems(1) True B \<open>b = Returned handles\<close> H K show ?thesis by simp
      next
        case (Panicked m)
        with Suc.prems(1) True B \<open>b = Returned handles\<close> H K show ?thesis by simp
      qed
    next
      case (Failed e)
      with Suc.prems True B show ?thesis by (simp split: if_splits)
    next
      case (Panicked m)
      with Suc.prems True B show ?thesis by simp
    qed
  qed
qed

lemma forHandles_length:
  "forHandles E M hs rs c t = (Returned rs', c', t') \<Longrightarrow> int (length rs) < sint M \<Longrightarrow>
     int (length rs') \<le> sint M \<and> length rs \<le> length rs' \<and> (hs \<noteq> [] \<longrightarrow> length rs < length rs')"
proof (induction hs arbitrary: rs c t)
  case Nil
  then show ?case by simp
next
  case (Cons h hs)
  obtain p c1 t1 where P: "parseEvent E h c t = (p, c1, t1)" using prod_cases3 by blast
  show ?case
  proof (cases p)
    case (Returned rec)
    show ?thesis
    proof (cases "sint M \<le> int (length (rs @ [rec]))")
      case True
      with Cons.prems P Returned have "rs' = rs @ [rec]" by (simp add: Let_def)
      with Cons.prems(2) show ?thesis by simp
    next
      case False
      with Cons.prems(1) P Returned
      have "forHandles E M hs (rs @ [rec]) c1 (evtCloseHandle E h t1) = (Returned rs', c', t')"
        by (simp add: Let_def)
      moreover from False have "int (length (rs @ [rec])) < sint M" by simp
      ultimately have "int (length rs') \<le> sint M \<and> length (rs @ [rec]) \<le> length rs'"
        using Cons.IH by blast
      then show ?thesis by simp
    qed
  next
    case (Failed e)
    with Cons.prems(1) P show ?thesis by simp
  next
    case (Panicked m)
    with Cons.prems(1) P show ?thesis by simp
  qed
qed

lemma forResults_length:
  "forResults n E M hq rs c t = (Some (Returned rs'), c', t') \<Longrightarrow> int (length rs) \<le> sint M \<Longrightarrow>
     int (length rs') \<le> sint M"
proof (induction n arbitrary: rs c t)
  case 0
  then show ?case by (simp split: if_splits)
next
  case (Suc n)
  show ?case
  proof (cases "int (length rs) < sint M")
    case False
    with Suc.prems show ?thesis by simp
  next
    case True
    obtain b t1 where B: "evtNextBatch E hq evtNextBatchSize t = (b, t1)" by force
    show ?thesis
    proof (cases b)
      case (Returned handles)
      obtain r c2 t2 where H: "forHandles E M handles rs c t1 = (r, c2, t2)"
        using prod_cases3 by blast
      show ?thesis
      proof (cases r)
        case (Returned rs1)
        with Suc.prems(1) True B \<open>b = Returned handles\<close> H
        have "forResults n E M hq rs1 c2 t2 = (Some (Returned rs'), c', t')" by simp
        moreover have "int (length rs1) \<le> sint M"
          using forHandles_length [OF H [unfolded Returned] True] by simp
        ultimately show ?thesis using Suc.IH by blast
      next
        case (Failed e)
        with Suc.prems(1) True B \<open>b = Returned handles\<close> H show ?thesis by simp
      next
        case (Panicked m)
        with Suc.prems(1) True B \<open>b = Returned handles\<close> H show ?thesis by simp
      qed
    next
      case (Failed e)
      with Suc.prems True B show ?thesis by (auto split: if_splits)
    next
      case (Panicked m)
      with Suc.prems True B show ?thesis by simp
    qed
  qed
qed

lemma next_nonempty:
  assumes "neverEmpty E" and "evtNextBatch E hq evtNextBatchSize t = (Returned handles, t1)"
  shows "handles \<noteq> []"
proof -
  define rep where "rep = native E t (EvtNext hq evtNextBatchSize)"
  from assms(2) have r: "ret rep \<noteq> 0" and le: "\<not> unat evtNextBatchSize < unat (outCount rep)"
    and hs: "handles = take (unat (outCount rep)) (stored (unat evtNextBatchSize) (outHandles rep))"
    by (auto simp: evtNextBatch_def syscall_def Let_def rep_def split: if_splits)
  from assms(1) r have "outCount rep \<noteq> 0" by (auto simp: neverEmpty_def rep_def)
  then have "unat (outCount rep) \<noteq> 0" by (simp add: unat_eq_0)
  moreover have "length (stored (unat evtNextBatchSize) (outHandles rep)) = unat evtNextBatchSize"
    by (simp add: stored_def)
  ultimately have "length handles \<noteq> 0" using hs le by simp
  then show ?thesis by auto
qed

lemma forResults_returns:
  "neverEmpty E \<Longrightarrow> nat (sint M) - length rs \<le> n \<Longrightarrow> fst (forResults n E M hq rs c t) \<noteq> None"
proof (induction n arbitrary: rs c t)
  case 0
  then have "\<not> int (length rs) < sint M" by linarith
  then show ?case by simp
next
  case (Suc n)
  show ?case
  proof (cases "int (length rs) < sint M")
    case False
    then show ?thesis by simp
  next
    case True
    obtain b t1 where B: "evtNextBatch E hq evtNextBatchSize t = (b, t1)" by force
    show ?thesis
    proof (cases b)
      case (Returned handles)
      obtain r c2 t2 where H: "forHandles E M handles rs c t1 = (r, c2, t2)"
        using prod_cases3 by blast
      show ?thesis
      proof (cases r)
        case (Returned rs1)
        have "handles \<noteq> []" using next_nonempty [OF Suc.prems(1)] B \<open>b = Returned handles\<close> by blast
        then have "length rs < length rs1"
          using forHandles_length [OF H [unfolded Returned] True] by simp
        with Suc.prems(2) have "nat (sint M) - length rs1 \<le> n" by linarith
        then have "fst (forResults n E M hq rs1 c2 t2) \<noteq> None" using Suc.IH Suc.prems(1) by blast
        with True B \<open>b = Returned handles\<close> H Returned show ?thesis by simp
      next
        case (Failed e)
        with True B \<open>b = Returned handles\<close> H show ?thesis by simp
      next
        case (Panicked m)
        with True B \<open>b = Returned handles\<close> H show ?thesis by simp
      qed
    next
      case (Failed e)
      with True B show ?thesis by simp
    next
      case (Panicked m)
      with True B show ?thesis by simp
    qed
  qed
qed

text \<open>What \<^verbatim>\<open>fetchEvents\<close> returns is an error from before the loop or what the loop returns.\<close>

lemma fetchEvents_shape:
  "(\<exists>e. fst (fetchEvents fuel E logName provider minutes maxEvents t) = Some (Failed e))
   \<or> (\<exists>hQuery t1. fst (fetchEvents fuel E logName provider minutes maxEvents t) =
         fst (forResults fuel E (if sint maxEvents \<le> 0 then defaultMaxEvents else maxEvents)
                hQuery [] [] t1))"
proof -
  define M where "M = (if sint maxEvents \<le> 0 then defaultMaxEvents else maxEvents)"
  define q where
    "q = buildQuery ((if sint minutes \<le> 0 then defaultLookbackMinutes else minutes) * 60 * 1000) provider"
  have f: "fetchEvents fuel E logName provider minutes maxEvents t =
     (case UTF16PtrFromString q of
        Inl e \<Rightarrow> (Some (Failed (Wrap ''query UTF16'' e)), t)
      | Inr queryPtr \<Rightarrow>
          (case UTF16PtrFromString logName of
             Inl e \<Rightarrow> (Some (Failed (Wrap ''path UTF16'' e)), t)
           | Inr pathPtr \<Rightarrow>
               (case evtQuery E pathPtr queryPtr t of
                  (Inl e, t1) \<Rightarrow> (Some (Failed e), t1)
                | (Inr hQuery, t1) \<Rightarrow>
                    (case forResults fuel E M hQuery [] [] t1 of
                       (out, c, t2) \<Rightarrow>
                         (case publisherCache_close E c t2 of
                            (c', t3) \<Rightarrow> (out, evtCloseHandle E hQuery t3))))))"
    unfolding fetchEvents_def M_def q_def Let_def by (rule refl)
  show ?thesis
  proof (cases "UTF16PtrFromString q")
    case (Inl e)
    with f show ?thesis by simp
  next
    case q: (Inr queryPtr)
    show ?thesis
    proof (cases "UTF16PtrFromString logName")
      case (Inl e)
      with f q show ?thesis by simp
    next
      case l: (Inr pathPtr)
      obtain r t1 where e: "evtQuery E pathPtr queryPtr t = (r, t1)" by force
      show ?thesis
      proof (cases r)
        case (Inl err)
        with f q l e show ?thesis by simp
      next
        case (Inr hQuery)
        with f q l e have "fst (fetchEvents fuel E logName provider minutes maxEvents t) =
            fst (forResults fuel E M hQuery [] [] t1)"
          by (simp add: case_prod_unfold)
        then show ?thesis unfolding M_def by blast
      qed
    qed
  qed
qed

subsection \<open>The scripted subsystem, step by step\<close>

lemma scriptedEnv_sel:
  "native scriptedEnv = scripted"
  "xml_Unmarshal scriptedEnv s =
     Inr \<lparr>ProviderName = ''svc'', EventID = 7, Level = 2, SystemTime = ''2024-01-01T00:00:00Z''\<rparr>"
  "time_Parse scriptedEnv s = Inr 1704067200000000000"
  "utf16_decode scriptedEnv us = map (\<lambda>u. char_of (unat u)) us"
  "json_Encode scriptedEnv events = Inr ''[]''"
  "unicode_TrimFunc scriptedEnv s = s"
  "unicode_TrimRightFunc scriptedEnv s = s"
  "unicode_ToLower scriptedEnv s = s"
  by (simp_all add: scriptedEnv_def)

lemmas scripted_defs = scriptedEnv_sel success_def failure_def syscall_def Let_def
  ERROR_INSUFFICIENT_BUFFER_def ERROR_NO_MORE_ITEMS_def evtRenderEventXML_def
  evtFormatMessageEvent_def stored_def UTF16ToString_def char_of_def TrimSpace_def asciiSpace_def
  belowRuneSelf_def bit_0

lemma scripted_render:
  "renderEventXML scriptedEnv h t = (Returned ''<e/>'', t @ take 2 (eventCalls h))"
  by (simp add: renderEventXML_def eventCalls_def scripted_defs)

lemma scripted_format:
  "formatMessage scriptedEnv 200 h t = (Returned ''ok'', t @ drop 2 (eventCalls h))"
  by (simp add: formatMessage_def eventCalls_def scripted_defs)

lemma scripted_parse_first:
  "parseEvent scriptedEnv h [] t =
     (Returned scriptedRecord, [(''svc'', 200)],
      t @ take 2 (eventCalls h) @ [(EvtOpenPublisherMetadata ''svc'', success\<lparr>ret := 200\<rparr>)]
        @ drop 2 (eventCalls h))"
  by (simp add: parseEvent_def scripted_render scripted_format scriptedEnv_sel
      publisherCache_get_def mapLevel_def scriptedRecord_def Let_def UTF16PtrFromString_def
      syscall_def success_def)

lemma scripted_parse_cached:
  "parseEvent scriptedEnv h [(''svc'', 200)] t =
     (Returned scriptedRecord, [(''svc'', 200)], t @ eventCalls h)"
proof -
  have "take 2 (eventCalls h) @ drop 2 (eventCalls h) = eventCalls h" by simp
  then show ?thesis
    by (simp add: parseEvent_def scripted_render scripted_format scriptedEnv_sel
        publisherCache_get_def mapLevel_def scriptedRecord_def Let_def del: append_take_drop_id)
qed

lemma scripted_close: "h \<noteq> 0 \<Longrightarrow> evtCloseHandle scriptedEnv h t = t @ [(EvtClose h, success)]"
  by (simp add: evtCloseHandle_def syscall_def scriptedEnv_sel)

lemma scripted_batch1:
  "forHandles scriptedEnv 4 [1, 2, 3] [] [] t =
     (Returned [scriptedRecord, scriptedRecord, scriptedRecord], [(''svc'', 200)],
      t @ take 2 (eventCalls 1) @ [(EvtOpenPublisherMetadata ''svc'', success\<lparr>ret := 200\<rparr>)]
        @ drop 2 (eventCalls 1) @ [(EvtClose 1, success)]
        @ eventCalls 2 @ [(EvtClose 2, success)] @ eventCalls 3 @ [(EvtClose 3, success)])"
  by (simp add: scripted_parse_first scripted_parse_cached scripted_close Let_def)

lemma scripted_batch2:
  "forHandles scriptedEnv 4 [4, 5] [scriptedRecord, scriptedRecord, scriptedRecord]
     [(''svc'', 200)] t =
     (Returned [scriptedRecord, scriptedRecord, scriptedRecord, scriptedRecord],
      [(''svc'', 200)], t @ eventCalls 4 @ [(EvtClose 4, success)])"
  by (simp add: scripted_parse_cached scripted_close Let_def)

lemma scripted_next:
  "evtNextBatch scriptedEnv hq 16 t =
     (let k = length (filter isEvtNext t) in
      if k = 0
      then (Returned [1, 2, 3],
            t @ [(EvtNext hq 16, success\<lparr>outCount := 3, outHandles := [1, 2, 3]\<rparr>)])
      else if k = 1
      then (Returned [4, 5], t @ [(EvtNext hq 16, success\<lparr>outCount := 2, outHandles := [4, 5]\<rparr>)])
      else (Failed (Errno ERROR_NO_MORE_ITEMS), t @ [(EvtNext hq 16, failure ERROR_NO_MORE_ITEMS)]))"
  by (simp add: evtNextBatch_def scriptedEnv_sel syscall_def Let_def success_def failure_def
      stored_def)

lemma nexts_eventCalls: "filter isEvtNext (eventCalls h) = []"
  by (simp add: isEvtNext_def eventCalls_def)

lemma nexts_take_eventCalls: "filter isEvtNext (take 2 (eventCalls h)) = []"
  by (simp add: isEvtNext_def eventCalls_def)

lemma nexts_drop_eventCalls: "filter isEvtNext (drop 2 (eventCalls h)) = []"
  by (simp add: isEvtNext_def eventCalls_def)

text \<open>The trace of the scripted run with the cap 4, from the first \<^verbatim>\<open>EvtNext\<close> on.\<close>

lemma scripted_loop:
  assumes "filter isEvtNext t = []"
  shows "forResults 3 scriptedEnv 4 100 [] [] t =
     (Some (Returned [scriptedRecord, scriptedRecord, scriptedRecord, scriptedRecord]),
      [(''svc'', 200)],
      t @ [(EvtNext 100 16, success\<lparr>outCount := 3, outHandles := [1, 2, 3]\<rparr>)]
        @ take 2 (eventCalls 1) @ [(EvtOpenPublisherMetadata ''svc'', success\<lparr>ret := 200\<rparr>)]
        @ drop 2 (eventCalls 1) @ [(EvtClose 1, success)]
        @ eventCalls 2 @ [(EvtClose 2, success)] @ eventCalls 3 @ [(EvtClose 3, success)]
        @ [(EvtNext 100 16, success\<lparr>outCount := 2, outHandles := [4, 5]\<rparr>)]
        @ eventCalls 4 @ [(EvtClose 4, success)])"
proof -
  have three: "(3::nat) = Suc (Suc (Suc 0))" by simp
  show ?thesis
    unfolding three
    by (simp add: assms evtNextBatchSize_def scripted_next scripted_batch1 scripted_batch2
        nexts_eventCalls nexts_take_eventCalls nexts_drop_eventCalls isEvtNext_def Let_def
        del: forHandles.simps)
qed

lemma scripted_query:
  "buildQuery (10 * 60 * 1000) '''' = ''*[System[TimeCreated[timediff(@SystemTime) <= 600000]]]''"
  by (simp add: buildQuery_def formatInt_def decimal.simps char_of_def bit_0)

lemma scripted_run:
  "fetchEvents 3 scriptedEnv ''Application'' '''' 10 4 [] =
     (Some (Returned [scriptedRecord, scriptedRecord, scriptedRecord, scriptedRecord]),
      [(EvtQuery ''Application'' ''*[System[TimeCreated[timediff(@SystemTime) <= 600000]]]'' 0x1001,
        success\<lparr>ret := 100\<rparr>),
       (EvtNext 100 16, success\<lparr>outCount := 3, outHandles := [1, 2, 3]\<rparr>)]
        @ take 2 (eventCalls 1) @ [(EvtOpenPublisherMetadata ''svc'', success\<lparr>ret := 200\<rparr>)]
        @ drop 2 (eventCalls 1) @ [(EvtClose 1, success)]
        @ eventCalls 2 @ [(EvtClose 2, success)] @ eventCalls 3 @ [(EvtClose 3, success)]
        @ [(EvtNext 100 16, success\<lparr>outCount := 2, outHandles := [4, 5]\<rparr>)]
        @ eventCalls 4 @ [(EvtClose 4, success), (EvtClose 200, success), (EvtClose 100, success)])"
proof -
  have q: "evtQuery scriptedEnv ''Application''
             ''*[System[TimeCreated[timediff(@SystemTime) <= 600000]]]'' [] =
           (Inr 100, [(EvtQuery ''Application''
              ''*[System[TimeCreated[timediff(@SystemTime) <= 600000]]]'' 0x1001, success\<lparr>ret := 100\<rparr>)])"
    by (simp add: evtQuery_def syscall_def scriptedEnv_sel Let_def evtQueryChannelPath_def
        evtQueryTolerateQueryErrs_def success_def)
  have l: "filter isEvtNext [(EvtQuery ''Application''
              ''*[System[TimeCreated[timediff(@SystemTime) <= 600000]]]'' 0x1001, success\<lparr>ret := 100\<rparr>)] = []"
    by (simp add: isEvtNext_def)
  show ?thesis
    by (simp add: fetchEvents_def defaultLookbackMinutes_def defaultMaxEvents_def
        scripted_query [simplified] UTF16PtrFromString_def q scripted_loop [OF l] scripted_close Let_def)
qed

subsection \<open>The level table\<close>

text \<open>
  C8. \<^verbatim>\<open>mapLevel\<close> is total and closed over all 32-bit levels: 2 is Error, 3 is Warning,
  4 is Information, every other level (99 and 0 among them) is Unknown, and there is no
  fifth result.
\<close>

theorem mapLevel_total:
  "mapLevel 2 = ''Error'' \<and> mapLevel 3 = ''Warning'' \<and> mapLevel 4 = ''Information''
   \<and> mapLevel 99 = ''Unknown'' \<and> mapLevel 0 = ''Unknown''
   \<and> (\<forall>level. level \<noteq> 2 \<and> level \<noteq> 3 \<and> level \<noteq> 4 \<longrightarrow> mapLevel level = ''Unknown'')
   \<and> (\<forall>level. mapLevel level \<in> {''Error'', ''Warning'', ''Information'', ''Unknown''})"
  by (simp add: mapLevel_def)

theorem mapLevel_total_witness:
  "(7 :: uint32) \<noteq> 2 \<and> (7 :: uint32) \<noteq> 3 \<and> (7 :: uint32) \<noteq> 4 \<and> mapLevel 7 = ''Unknown''"
  using mapLevel_total by simp

subsection \<open>Channel names\<close>

lemma TrimSpace_ASCII:
  assumes "list_all belowRuneSelf s"
  shows "TrimSpace E s = rev (dropWhile asciiSpace (rev (dropWhile asciiSpace s)))"
proof (cases "dropWhile asciiSpace s")
  case Nil
  show ?thesis unfolding TrimSpace_def Nil by simp
next
  case (Cons c rest)
  have sub: "set (c # rest) \<subseteq> set s"
    using set_dropWhileD [of _ asciiSpace s] Cons by auto
  with assms have all: "\<forall>x \<in> set (c # rest). belowRuneSelf x"
    by (auto simp: list_all_iff)
  then have c: "belowRuneSelf c" by simp
  show ?thesis
  proof (cases "dropWhile asciiSpace (rev (c # rest))")
    case Nil
    with Cons c show ?thesis by (simp add: TrimSpace_def del: dropWhile_eq_Nil_conv)
  next
    case inner: (Cons d front)
    have "d \<in> set (rev (c # rest))"
      using set_dropWhileD [of d asciiSpace "rev (c # rest)"] inner by simp
    with all have "belowRuneSelf d" by auto
    with Cons c inner show ?thesis by (simp add: TrimSpace_def)
  qed
qed

lemma TrimSpace_ASCII_all:
  assumes "list_all belowRuneSelf s"
  shows "list_all belowRuneSelf (TrimSpace E s)"
proof -
  have "set (rev (dropWhile asciiSpace (rev (dropWhile asciiSpace s)))) \<subseteq> set s"
    using set_dropWhileD [of _ asciiSpace s]
      set_dropWhileD [of _ asciiSpace "rev (dropWhile asciiSpace s)"] by auto
  with assms show ?thesis by (auto simp: TrimSpace_ASCII list_all_iff)
qed

text \<open>
  C10. \<^verbatim>\<open>normalizeLogName\<close> maps the empty name to the channel Application, so that
  \<^verbatim>\<open>main\<close> with an empty channel argument goes on to the collection; a name is accepted
  exactly when \<^verbatim>\<open>strings.ToLower(strings.TrimSpace(name))\<close> is application, system, setup
  or empty; and for a name of ASCII bytes that string is the name with its ASCII white
  space cut off at both ends and its letters A to Z in lower case.
\<close>

theorem normalizeLogName_accepts:
  "normalizeLogName E '''' = Inr ''Application''
   \<and> main fuel E minutes maxEvents '''' provider t =
       report E (fetchEvents fuel E ''Application'' (TrimSpace E provider) minutes maxEvents t)
   \<and> ((\<exists>channel. normalizeLogName E name = Inr channel) =
        (ToLower E (TrimSpace E name) \<in> {''application'', ''system'', ''setup'', ''''}))
   \<and> (\<forall>channel. normalizeLogName E name = Inr channel \<longrightarrow>
        channel = (if ToLower E (TrimSpace E name) = ''system'' then ''System''
                   else if ToLower E (TrimSpace E name) = ''setup'' then ''Setup''
                   else ''Application''))
   \<and> (list_all belowRuneSelf name \<longrightarrow>
        ToLower E (TrimSpace E name) =
          map lowerASCII (rev (dropWhile asciiSpace (rev (dropWhile asciiSpace name)))))"
proof -
  have e: "normalizeLogName E '''' = Inr ''Application''"
    by (simp add: normalizeLogName_def ToLower_def TrimSpace_def)
  then have m: "main fuel E minutes maxEvents '''' provider t =
       report E (fetchEvents fuel E ''Application'' (TrimSpace E provider) minutes maxEvents t)"
    by (simp add: main_def)
  have a: "(\<exists>channel. normalizeLogName E name = Inr channel) =
        (ToLower E (TrimSpace E name) \<in> {''application'', ''system'', ''setup'', ''''})"
    by (auto simp: normalizeLogName_def Let_def)
  have c: "\<forall>channel. normalizeLogName E name = Inr channel \<longrightarrow>
        channel = (if ToLower E (TrimSpace E name) = ''system'' then ''System''
                   else if ToLower E (TrimSpace E name) = ''setup'' then ''Setup''
                   else ''Application'')"
    by (auto simp: normalizeLogName_def Let_def split: if_splits)
  have d: "list_all belowRuneSelf name \<longrightarrow>
        ToLower E (TrimSpace E name) =
          map lowerASCII (rev (dropWhile asciiSpace (rev (dropWhile asciiSpace name))))"
  proof
    assume n: "list_all belowRuneSelf name"
    then have "ToLower E (TrimSpace E name) = map lowerASCII (TrimSpace E name)"
      using TrimSpace_ASCII_all by (simp add: ToLower_def)
    with n show "ToLower E (TrimSpace E name) =
          map lowerASCII (rev (dropWhile asciiSpace (rev (dropWhile asciiSpace name))))"
      by (simp add: TrimSpace_ASCII)
  qed
  from e m a c d show ?thesis by blast
qed

lemma ascii_SyStEm: "list_all belowRuneSelf ''  SyStEm ''"
  by (simp add: belowRuneSelf_def)

lemma fold_SyStEm:
  "map lowerASCII (rev (dropWhile asciiSpace (rev (dropWhile asciiSpace ''  SyStEm '')))) = ''system''"
  by (simp add: asciiSpace_def lowerASCII_def char_of_def bit_0)

theorem normalizeLogName_accepts_witness:
  "list_all belowRuneSelf ''  SyStEm ''
   \<and> normalizeLogName scriptedEnv ''  SyStEm '' = Inr ''System''"
proof -
  note T = normalizeLogName_accepts [where E = scriptedEnv and name = "''  SyStEm ''"
      and fuel = 0 and minutes = 0 and maxEvents = 0 and provider = "''''" and t = "[]"]
  have l: "ToLower scriptedEnv (TrimSpace scriptedEnv ''  SyStEm '') = ''system''"
    using trans [OF T [THEN conjunct2, THEN conjunct2, THEN conjunct2, THEN conjunct2,
        rule_format, OF ascii_SyStEm] fold_SyStEm] .
  have "(\<exists>channel. normalizeLogName scriptedEnv ''  SyStEm '' = Inr channel) =
        (ToLower scriptedEnv (TrimSpace scriptedEnv ''  SyStEm '')
           \<in> {''application'', ''system'', ''setup'', ''''})"
    using T by (rule conjunct2 [THEN conjunct2, THEN conjunct1])
  then have "\<exists>channel. normalizeLogName scriptedEnv ''  SyStEm '' = Inr channel"
    by (simp only: l) simp
  then obtain channel where c: "normalizeLogName scriptedEnv ''  SyStEm '' = Inr channel" ..
  have "channel =
      (if ToLower scriptedEnv (TrimSpace scriptedEnv ''  SyStEm '') = ''system'' then ''System''
       else if ToLower scriptedEnv (TrimSpace scriptedEnv ''  SyStEm '') = ''setup'' then ''Setup''
       else ''Application'')"
    using T [THEN conjunct2, THEN conjunct2, THEN conjunct2, THEN conjunct1, rule_format, OF c] .
  then have "channel = ''System''" by (simp only: l) simp
  with c ascii_SyStEm show ?thesis by (simp only: simp_thms)
qed

text \<open>
  C3, as the claim states it, fails: the empty name is none of Application, System and
  Setup in any case, yet it is accepted, and the run goes on to call the subsystem.
\<close>

theorem empty_channel_counterexample:
  "ToLower scriptedEnv '''' \<notin>
     {ToLower scriptedEnv ''Application'', ToLower scriptedEnv ''System'',
      ToLower scriptedEnv ''Setup''}
   \<and> normalizeLogName scriptedEnv '''' = Inr ''Application''
   \<and> fst (main 3 scriptedEnv 10 4 '''' '''' []) = Some (Printed ''[]'')
   \<and> snd (main 3 scriptedEnv 10 4 '''' '''' []) \<noteq> []"
proof -
  have "normalizeLogName scriptedEnv '''' = Inr ''Application''"
    by (simp add: normalizeLogName_def ToLower_def TrimSpace_def)
  moreover have "TrimSpace scriptedEnv '''' = ''''" by (simp add: TrimSpace_def)
  ultimately show ?thesis
    by (simp add: main_def report_def scripted_run scriptedEnv_sel ToLower_def belowRuneSelf_def)
qed

text \<open>
  C3, amended: a channel name for which \<^verbatim>\<open>strings.ToLower(strings.TrimSpace(name))\<close> is
  none of application, system, setup and the empty string ends \<^verbatim>\<open>main\<close> with the
  unsupported-log error, and the trace is the one \<^verbatim>\<open>main\<close> began with: no call to the
  subsystem is made.
\<close>

theorem unsupported_channel_no_native_call:
  assumes "ToLower E (TrimSpace E name) \<notin> {''application'', ''system'', ''setup'', ''''}"
  shows "normalizeLogName E name = Inl (UnsupportedLog name)
         \<and> main fuel E minutes maxEvents name provider t = (Some (Exit2 (UnsupportedLog name)), t)"
  using assms by (simp add: main_def normalizeLogName_def Let_def)

lemma fold_Security: "ToLower E (TrimSpace E ''Security'') = ''security''"
proof -
  have a: "list_all belowRuneSelf ''Security''" by (simp add: belowRuneSelf_def)
  then have "ToLower E (TrimSpace E ''Security'') = map lowerASCII (TrimSpace E ''Security'')"
    using TrimSpace_ASCII_all by (simp add: ToLower_def)
  also have "\<dots> = ''security''"
    by (simp add: TrimSpace_ASCII [OF a] asciiSpace_def lowerASCII_def char_of_def bit_0)
  finally show ?thesis .
qed

theorem unsupported_channel_no_native_call_witness:
  "ToLower scriptedEnv (TrimSpace scriptedEnv ''Security'')
     \<notin> {''application'', ''system'', ''setup'', ''''}
   \<and> main 3 scriptedEnv 10 4 ''Security'' '''' [] = (Some (Exit2 (UnsupportedLog ''Security'')), [])"
proof -
  have h: "ToLower scriptedEnv (TrimSpace scriptedEnv ''Security'')
     \<notin> {''application'', ''system'', ''setup'', ''''}"
    by (simp add: fold_Security)
  show ?thesis
    using h unsupported_channel_no_native_call [OF h, of 3 10 4 "''''" "[]"] by simp
qed
subsection \<open>The record cap and the batches\<close>

text \<open>
  C2. For a positive cap, every list of records that \<^verbatim>\<open>fetchEvents\<close> returns has at most
  \<^verbatim>\<open>maxEvents\<close> records, whatever the channel, the provider, the minutes and the
  subsystem; and against a subsystem that makes progress the loop ends within
  \<^verbatim>\<open>maxEvents\<close> batches, so that \<^verbatim>\<open>fetchEvents\<close> does return.
\<close>

theorem fetchEvents_at_most_max:
  assumes "0 < sint maxEvents"
  shows "(\<forall>fuel results t'.
            fetchEvents fuel E logName provider minutes maxEvents t = (Some (Returned results), t')
            \<longrightarrow> int (length results) \<le> sint maxEvents)
         \<and> (neverEmpty E \<longrightarrow>
              fst (fetchEvents (nat (sint maxEvents)) E logName provider minutes maxEvents t) \<noteq> None)"
proof -
  have shape: "(\<exists>e. fst (fetchEvents fuel E logName provider minutes maxEvents t) = Some (Failed e))
      \<or> (\<exists>hQuery t1. fst (fetchEvents fuel E logName provider minutes maxEvents t) =
            fst (forResults fuel E maxEvents hQuery [] [] t1))" for fuel
    using assms fetchEvents_shape [of fuel E logName provider minutes maxEvents t] by simp
  show ?thesis
  proof (intro conjI allI impI)
    fix fuel results t'
    assume "fetchEvents fuel E logName provider minutes maxEvents t = (Some (Returned results), t')"
    then have "fst (fetchEvents fuel E logName provider minutes maxEvents t) = Some (Returned results)"
      by simp
    with shape [of fuel] obtain hQuery t1 where
      "fst (forResults fuel E maxEvents hQuery [] [] t1) = Some (Returned results)" by auto
    then obtain c t2 where
      "forResults fuel E maxEvents hQuery [] [] t1 = (Some (Returned results), c, t2)"
      by (metis prod.collapse)
    then show "int (length results) \<le> sint maxEvents"
      using forResults_length assms by fastforce
  next
    assume ne: "neverEmpty E"
    have "fst (forResults (nat (sint maxEvents)) E maxEvents hQuery [] [] t1) \<noteq> None" for hQuery t1
      using forResults_returns [OF ne, of maxEvents "[]" "nat (sint maxEvents)"] by simp
    with shape [of "nat (sint maxEvents)"]
    show "fst (fetchEvents (nat (sint maxEvents)) E logName provider minutes maxEvents t) \<noteq> None"
      by auto
  qed
qed

lemma scripted_neverEmpty: "neverEmpty scriptedEnv"
  by (simp add: neverEmpty_def scriptedEnv_sel Let_def success_def failure_def)

theorem fetchEvents_at_most_max_witness:
  "0 < sint (4 :: goint) \<and> neverEmpty scriptedEnv
   \<and> fst (fetchEvents 3 scriptedEnv ''Application'' '''' 10 4 []) =
       Some (Returned [scriptedRecord, scriptedRecord, scriptedRecord, scriptedRecord])
   \<and> fst (fetchEvents 4 scriptedEnv ''Application'' '''' 10 4 []) \<noteq> None"
proof -
  have h: "0 < sint (4 :: goint)" by simp
  have "fst (fetchEvents (nat (sint (4 :: goint))) scriptedEnv ''Application'' '''' 10 4 []) \<noteq> None"
    using fetchEvents_at_most_max [OF h, of scriptedEnv "''Application''" "''''" 10 "[]"]
      scripted_neverEmpty by blast
  then show ?thesis using scripted_neverEmpty scripted_run by simp
qed

text \<open>
  C1. The scenario of the claim: the batches 1, 2, 3 and 4, 5, then exhaustion, with the cap
  4. \<^verbatim>\<open>fetchEvents\<close> returns four records, and the second batch did store the handle 5;
  but the handles closed are 1, 2, 3 and 4, then the metadata handle 200 and the query
  handle 100: the \<^verbatim>\<open>break\<close> at the cap leaves the loop before the handle 5 is closed.
\<close>

theorem cap_mid_batch_leaves_handle_open:
  "fst (fetchEvents 3 scriptedEnv ''Application'' '''' 10 4 []) =
     Some (Returned [scriptedRecord, scriptedRecord, scriptedRecord, scriptedRecord])
   \<and> (EvtNext 100 16, success\<lparr>outCount := 2, outHandles := [4, 5]\<rparr>)
       \<in> set (snd (fetchEvents 3 scriptedEnv ''Application'' '''' 10 4 []))
   \<and> closedHandles (snd (fetchEvents 3 scriptedEnv ''Application'' '''' 10 4 [])) =
       [1, 2, 3, 4, 200, 100]"
  by (simp add: scripted_run closedHandles_def eventCalls_def)

subsection \<open>Exhaustion and other failures of a batch\<close>








subsection \<open>The two-phase calls\<close>

text \<open>
  What both two-phase functions do outside the discovered size 0: a size-discovery call
  that fails with an error other than \<^verbatim>\<open>ERROR_INSUFFICIENT_BUFFER\<close> makes the function fail
  with that error, and no second call is made; a discovery that succeeds or reports
  \<^verbatim>\<open>ERROR_INSUFFICIENT_BUFFER\<close> is accepted, and then, for a discovered size other than 0,
  the second call is made with a buffer of exactly that many elements, its failure is the
  function's error and its success gives the decoded text. Whenever either function
  returns a text, the discovery was accepted and the second call succeeded.
\<close>

lemma two_phase_protocol:
  assumes "native E t (EvtRender hEvt evtRenderEventXML 0) = d"
    and "native E t (EvtFormatMessage meta hEvt evtFormatMessageEvent 0) = g"
  shows
    "(ret d = 0 \<and> lastErr d \<noteq> ERROR_INSUFFICIENT_BUFFER \<longrightarrow>
        renderEventXML E hEvt t =
          (Failed (Wrap ''EvtRender(size)'' (Errno (lastErr d))),
           t @ [(EvtRender hEvt evtRenderEventXML 0, d)]))
     \<and> ((ret d \<noteq> 0 \<or> lastErr d = ERROR_INSUFFICIENT_BUFFER) \<and> outCount d \<noteq> 0 \<longrightarrow>
        (let t1 = t @ [(EvtRender hEvt evtRenderEventXML 0, d)];
             fill = EvtRender hEvt evtRenderEventXML (outCount d);
             f = native E t1 fill;
             buffer = stored (unat (outCount d)) (outBuffer f) in
         length buffer = unat (outCount d)
         \<and> renderEventXML E hEvt t =
             (if ret f = 0 then Failed (Wrap ''EvtRender'' (Errno (lastErr f)))
              else Returned (UTF16ToString E buffer),
              t1 @ [(fill, f)])))
     \<and> (ret g = 0 \<and> lastErr g \<noteq> ERROR_INSUFFICIENT_BUFFER \<longrightarrow>
        formatMessage E meta hEvt t =
          (Failed (Wrap ''EvtFormatMessage(size)'' (Errno (lastErr g))),
           t @ [(EvtFormatMessage meta hEvt evtFormatMessageEvent 0, g)]))
     \<and> ((ret g \<noteq> 0 \<or> lastErr g = ERROR_INSUFFICIENT_BUFFER) \<and> outCount g \<noteq> 0 \<longrightarrow>
        (let t1 = t @ [(EvtFormatMessage meta hEvt evtFormatMessageEvent 0, g)];
             fill = EvtFormatMessage meta hEvt evtFormatMessageEvent (outCount g);
             f = native E t1 fill;
             buf = stored (unat (outCount g)) (outBuffer f) in
         length buf = unat (outCount g)
         \<and> formatMessage E meta hEvt t =
             (if ret f = 0 then Failed (Wrap ''EvtFormatMessage'' (Errno (lastErr f)))
              else Returned (TrimSpace E (UTF16ToString E buf)),
              t1 @ [(fill, f)])))
     \<and> (\<forall>text t'. renderEventXML E hEvt t = (Returned text, t') \<longrightarrow>
          (ret d \<noteq> 0 \<or> lastErr d = ERROR_INSUFFICIENT_BUFFER)
          \<and> (let t1 = t @ [(EvtRender hEvt evtRenderEventXML 0, d)];
                  fill = EvtRender hEvt evtRenderEventXML (outCount d);
                  f = native E t1 fill in
              ret f \<noteq> 0 \<and> t' = t1 @ [(fill, f)]
              \<and> text = UTF16ToString E (stored (unat (outCount d)) (outBuffer f))))
     \<and> (\<forall>text t'. formatMessage E meta hEvt t = (Returned text, t') \<longrightarrow>
          (ret g \<noteq> 0 \<or> lastErr g = ERROR_INSUFFICIENT_BUFFER)
          \<and> (let t1 = t @ [(EvtFormatMessage meta hEvt evtFormatMessageEvent 0, g)];
                  fill = EvtFormatMessage meta hEvt evtFormatMessageEvent (outCount g);
                  f = native E t1 fill in
              ret f \<noteq> 0 \<and> t' = t1 @ [(fill, f)]
              \<and> text = TrimSpace E (UTF16ToString E (stored (unat (outCount g)) (outBuffer f)))))"
proof -
  have len: "length (stored n xs) = n" for n and xs :: "uint16 list"
    by (simp add: stored_def)
  have r1: "ret d = 0 \<and> lastErr d \<noteq> ERROR_INSUFFICIENT_BUFFER \<longrightarrow>
        renderEventXML E hEvt t =
          (Failed (Wrap ''EvtRender(size)'' (Errno (lastErr d))),
           t @ [(EvtRender hEvt evtRenderEventXML 0, d)])"
    using assms(1) by (simp add: renderEventXML_def syscall_def Let_def)
  have r2: "(ret d \<noteq> 0 \<or> lastErr d = ERROR_INSUFFICIENT_BUFFER) \<and> outCount d \<noteq> 0 \<longrightarrow>
        (let t1 = t @ [(EvtRender hEvt evtRenderEventXML 0, d)];
             fill = EvtRender hEvt evtRenderEventXML (outCount d);
             f = native E t1 fill;
             buffer = stored (unat (outCount d)) (outBuffer f) in
         length buffer = unat (outCount d)
         \<and> renderEventXML E hEvt t =
             (if ret f = 0 then Failed (Wrap ''EvtRender'' (Errno (lastErr f)))
              else Returned (UTF16ToString E buffer),
              t1 @ [(fill, f)]))"
    using assms(1) by (auto simp: renderEventXML_def syscall_def Let_def len unat_eq_0)
  have f1: "ret g = 0 \<and> lastErr g \<noteq> ERROR_INSUFFICIENT_BUFFER \<longrightarrow>
        formatMessage E meta hEvt t =
          (Failed (Wrap ''EvtFormatMessage(size)'' (Errno (lastErr g))),
           t @ [(EvtFormatMessage meta hEvt evtFormatMessageEvent 0, g)])"
    using assms(2) by (simp add: formatMessage_def syscall_def Let_def)
  have f2: "(ret g \<noteq> 0 \<or> lastErr g = ERROR_INSUFFICIENT_BUFFER) \<and> outCount g \<noteq> 0 \<longrightarrow>
        (let t1 = t @ [(EvtFormatMessage meta hEvt evtFormatMessageEvent 0, g)];
             fill = EvtFormatMessage meta hEvt evtFormatMessageEvent (outCount g);
             f = native E t1 fill;
             buf = stored (unat (outCount g)) (outBuffer f) in
         length buf = unat (outCount g)
         \<and> formatMessage E meta hEvt t =
             (if ret f = 0 then Failed (Wrap ''EvtFormatMessage'' (Errno (lastErr f)))
              else Returned (TrimSpace E (UTF16ToString E buf)),
              t1 @ [(fill, f)]))"
    using assms(2) by (auto simp: formatMessage_def syscall_def Let_def len unat_eq_0)
  have r3: "\<forall>text t'. renderEventXML E hEvt t = (Returned text, t') \<longrightarrow>
          (ret d \<noteq> 0 \<or> lastErr d = ERROR_INSUFFICIENT_BUFFER)
          \<and> (let t1 = t @ [(EvtRender hEvt evtRenderEventXML 0, d)];
                  fill = EvtRender hEvt evtRenderEventXML (outCount d);
                  f = native E t1 fill in
              ret f \<noteq> 0 \<and> t' = t1 @ [(fill, f)]
              \<and> text = UTF16ToString E (stored (unat (outCount d)) (outBuffer f)))"
    using assms(1) by (auto simp: renderEventXML_def syscall_def Let_def split: if_splits)
  have f3: "\<forall>text t'. formatMessage E meta hEvt t = (Returned text, t') \<longrightarrow>
          (ret g \<noteq> 0 \<or> lastErr g = ERROR_INSUFFICIENT_BUFFER)
          \<and> (let t1 = t @ [(EvtFormatMessage meta hEvt evtFormatMessageEvent 0, g)];
                  fill = EvtFormatMessage meta hEvt evtFormatMessageEvent (outCount g);
                  f = native E t1 fill in
              ret f \<noteq> 0 \<and> t' = t1 @ [(fill, f)]
              \<and> text = TrimSpace E (UTF16ToString E (stored (unat (outCount g)) (outBuffer f))))"
    using assms(2) by (auto simp: formatMessage_def syscall_def Let_def split: if_splits)
  from r1 r2 f1 f2 r3 f3 show ?thesis by blast
qed

text \<open>
  Three runs: against the scripted subsystem (discovery accepted, fill succeeds), against
  one that fails every call with the error 5 (discovery fails) and against one that always
  reports \<^verbatim>\<open>ERROR_INSUFFICIENT_BUFFER\<close> and the size 5 (discovery accepted, fill fails).
\<close>

lemma two_phase_protocol_runs:
  "renderEventXML (failing 5) 1 [] =
     (Failed (Wrap ''EvtRender(size)'' (Errno 5)), [(EvtRender 1 evtRenderEventXML 0, failure 5)])
   \<and> formatMessage (failing 5) 200 1 [] =
     (Failed (Wrap ''EvtFormatMessage(size)'' (Errno 5)),
      [(EvtFormatMessage 200 1 evtFormatMessageEvent 0, failure 5)])
   \<and> fst (renderEventXML (tooSmall 5) 1 []) = Failed (Wrap ''EvtRender'' (Errno ERROR_INSUFFICIENT_BUFFER))
   \<and> fst (formatMessage (tooSmall 5) 200 1 []) =
       Failed (Wrap ''EvtFormatMessage'' (Errno ERROR_INSUFFICIENT_BUFFER))
   \<and> fst (renderEventXML scriptedEnv 1 []) = Returned ''<e/>''
   \<and> fst (formatMessage scriptedEnv 200 1 []) = Returned ''ok''"
proof -
  have a: "native (failing 5) t c = failure 5" for t c by (simp add: failing_def)
  have b: "native (tooSmall 5) t c = (failure ERROR_INSUFFICIENT_BUFFER)\<lparr>outCount := 5\<rparr>" for t c
    by (simp add: tooSmall_def)
  have f: "ret (failure e) = 0" "lastErr (failure e) = e" "outCount (failure e) = 0" for e
    by (simp_all add: failure_def)
  have "(5 :: errno) \<noteq> ERROR_INSUFFICIENT_BUFFER" by (simp add: ERROR_INSUFFICIENT_BUFFER_def)
  then have one: "renderEventXML (failing 5) 1 [] =
     (Failed (Wrap ''EvtRender(size)'' (Errno 5)), [(EvtRender 1 evtRenderEventXML 0, failure 5)])
   \<and> formatMessage (failing 5) 200 1 [] =
     (Failed (Wrap ''EvtFormatMessage(size)'' (Errno 5)),
      [(EvtFormatMessage 200 1 evtFormatMessageEvent 0, failure 5)])"
    using two_phase_protocol [OF a a, where t = "[]" and hEvt = 1 and meta = 200] by (simp add: f)
  have two: "fst (renderEventXML (tooSmall 5) 1 []) =
       Failed (Wrap ''EvtRender'' (Errno ERROR_INSUFFICIENT_BUFFER))
   \<and> fst (formatMessage (tooSmall 5) 200 1 []) =
       Failed (Wrap ''EvtFormatMessage'' (Errno ERROR_INSUFFICIENT_BUFFER))"
    using two_phase_protocol [OF b b, where t = "[]" and hEvt = 1 and meta = 200] by (simp add: f b Let_def)
  show ?thesis using one two by (simp add: scripted_render scripted_format)
qed

text \<open>
  C6. The claim fails on the code in its fill phase: when the discovery is accepted (it
  succeeds, or reports \<^verbatim>\<open>ERROR_INSUFFICIENT_BUFFER\<close>) and the discovered size is 0, the
  buffer of that size is allocated, but the second call is never made and the function
  ends neither with a text nor with a render or format error: it panics where the address
  of the buffer's first element is taken. The trace ends with the discovery call.
\<close>

theorem accepted_size_zero_never_fills:
  assumes "native E t (EvtRender hEvt evtRenderEventXML 0) = d"
    and "native E t (EvtFormatMessage meta hEvt evtFormatMessageEvent 0) = g"
  shows
    "((ret d \<noteq> 0 \<or> lastErr d = ERROR_INSUFFICIENT_BUFFER) \<and> outCount d = 0 \<longrightarrow>
        renderEventXML E hEvt t =
          (Panicked ''index out of range [0] with length 0'',
           t @ [(EvtRender hEvt evtRenderEventXML 0, d)]))
     \<and> ((ret g \<noteq> 0 \<or> lastErr g = ERROR_INSUFFICIENT_BUFFER) \<and> outCount g = 0 \<longrightarrow>
        formatMessage E meta hEvt t =
          (Panicked ''index out of range [0] with length 0'',
           t @ [(EvtFormatMessage meta hEvt evtFormatMessageEvent 0, g)]))"
  using assms
  by (auto simp: renderEventXML_def formatMessage_def syscall_def Let_def)

theorem accepted_size_zero_never_fills_witness:
  "ret (native succeeding [] (EvtRender 7 evtRenderEventXML 0)) \<noteq> 0
   \<and> outCount (native succeeding [] (EvtRender 7 evtRenderEventXML 0)) = 0
   \<and> (\<forall>text. fst (renderEventXML succeeding 7 []) \<noteq> Returned text)
   \<and> (\<forall>e. fst (renderEventXML succeeding 7 []) \<noteq> Failed e)
   \<and> length (snd (renderEventXML succeeding 7 [])) = 1
   \<and> lastErr (native (tooSmall 0) [] (EvtFormatMessage 200 7 evtFormatMessageEvent 0)) =
       ERROR_INSUFFICIENT_BUFFER
   \<and> outCount (native (tooSmall 0) [] (EvtFormatMessage 200 7 evtFormatMessageEvent 0)) = 0
   \<and> (\<forall>text. fst (formatMessage (tooSmall 0) 200 7 []) \<noteq> Returned text)
   \<and> (\<forall>e. fst (formatMessage (tooSmall 0) 200 7 []) \<noteq> Failed e)
   \<and> length (snd (formatMessage (tooSmall 0) 200 7 [])) = 1"
proof -
  have a: "native succeeding t c = success" for t c by (simp add: succeeding_def)
  have b: "native (tooSmall 0) t c = (failure ERROR_INSUFFICIENT_BUFFER)\<lparr>outCount := 0\<rparr>" for t c
    by (simp add: tooSmall_def)
  have s: "ret success \<noteq> 0" "outCount success = 0" by (simp_all add: success_def)
  have f: "lastErr (failure e) = e" "outCount (failure e) = 0" for e
    by (simp_all add: failure_def)
  have one: "renderEventXML succeeding 7 [] =
      (Panicked ''index out of range [0] with length 0'', [(EvtRender 7 evtRenderEventXML 0, success)])"
    using accepted_size_zero_never_fills [OF a a, where t = "[]" and hEvt = 7 and meta = 200]
    by (simp add: s)
  have two: "formatMessage (tooSmall 0) 200 7 [] =
      (Panicked ''index out of range [0] with length 0'',
       [(EvtFormatMessage 200 7 evtFormatMessageEvent 0,
         (failure ERROR_INSUFFICIENT_BUFFER)\<lparr>outCount := 0\<rparr>)])"
    using accepted_size_zero_never_fills [OF b b, where t = "[]" and hEvt = 7 and meta = 200]
    by (simp add: f)
  show ?thesis by (simp add: one two a b s f)
qed

text \<open>
  C9. The claim fails on the code: when the discovery call reports
  \<^verbatim>\<open>ERROR_INSUFFICIENT_BUFFER\<close> and the size 0, or succeeds and stores no size, the buffer
  has no element, and taking the address of its first element panics, in
  \<^verbatim>\<open>renderEventXML\<close> and in \<^verbatim>\<open>formatMessage\<close>, before the second call is made.
\<close>

theorem zero_size_panics:
  "renderEventXML (tooSmall 0) 1 [] =
     (Panicked ''index out of range [0] with length 0'',
      [(EvtRender 1 evtRenderEventXML 0, (failure ERROR_INSUFFICIENT_BUFFER)\<lparr>outCount := 0\<rparr>)])
   \<and> formatMessage (tooSmall 0) 200 1 [] =
     (Panicked ''index out of range [0] with length 0'',
      [(EvtFormatMessage 200 1 evtFormatMessageEvent 0,
        (failure ERROR_INSUFFICIENT_BUFFER)\<lparr>outCount := 0\<rparr>)])
   \<and> renderEventXML succeeding 1 [] =
     (Panicked ''index out of range [0] with length 0'', [(EvtRender 1 evtRenderEventXML 0, success)])
   \<and> formatMessage succeeding 200 1 [] =
     (Panicked ''index out of range [0] with length 0'',
      [(EvtFormatMessage 200 1 evtFormatMessageEvent 0, success)])"
  by (simp add: renderEventXML_def formatMessage_def syscall_def Let_def tooSmall_def
      succeeding_def failure_def success_def)

subsection \<open>The publisher metadata cache\<close>

text \<open>
  C7. A first request for a provider that succeeds makes exactly one
  \<^verbatim>\<open>EvtOpenPublisherMetadata\<close> call and stores the handle, and the request repeated returns
  the same handle and makes no call; a request for a cached provider returns the cached
  handle and makes no call; an entry of the cache stays as it is while the batching loop
  runs; and at every point the loop reaches from the empty cache, the cache has one entry
  for a key and the run has opened one metadata handle for each provider in the cache and
  none for any other provider (none is closed before \<^verbatim>\<open>close\<close> runs at the end).
\<close>

theorem publisherCache_one_handle_per_provider:
  "(\<forall>c t h c1 t1.
      map_of c p = None \<and> publisherCache_get E p c t = (Inr h, c1, t1) \<longrightarrow>
        (\<exists>rep. t1 = t @ [(EvtOpenPublisherMetadata p, rep)] \<and> ret rep = h)
        \<and> map_of c1 p = Some h
        \<and> publisherCache_get E p c1 t1 = (Inr h, c1, t1))
   \<and> (\<forall>c t h. map_of c p = Some h \<longrightarrow> publisherCache_get E p c t = (Inr h, c, t))
   \<and> (\<forall>fuel maxEvents hQuery results c t out c' t' h.
        forResults fuel E maxEvents hQuery results c t = (out, c', t') \<and> map_of c p = Some h
        \<longrightarrow> map_of c' p = Some h)
   \<and> (\<forall>fuel maxEvents hQuery results t0 out c' t'.
        forResults fuel E maxEvents hQuery results [] t0 = (out, c', t') \<longrightarrow>
          distinct (map fst c')
          \<and> opened p t' = opened p t0 + (if p \<in> fst ` set c' then 1 else 0))"
proof (intro conjI allI impI)
  fix c t h c1 t1
  assume a: "map_of c p = None \<and> publisherCache_get E p c t = (Inr h, c1, t1)"
  then show "\<exists>rep. t1 = t @ [(EvtOpenPublisherMetadata p, rep)] \<and> ret rep = h"
    by (auto simp: publisherCache_get_def UTF16PtrFromString_def syscall_def Let_def
        split: if_splits)
  from a show m: "map_of c1 p = Some h" using get_result by blast
  show "publisherCache_get E p c1 t1 = (Inr h, c1, t1)" using get_cached [OF m] .
next
  fix c :: publisherCache and t :: trace and h :: handle
  assume "map_of c p = Some h"
  then show "publisherCache_get E p c t = (Inr h, c, t)" by (rule get_cached)
next
  fix fuel maxEvents hQuery results c t out c' t' h
  assume "forResults fuel E maxEvents hQuery results c t = (out, c', t') \<and> map_of c p = Some h"
  then show "map_of c' p = Some h" using forResults_keeps by blast
next
  fix fuel maxEvents hQuery results t0 out c' t'
  assume "forResults fuel E maxEvents hQuery results [] t0 = (out, c', t')"
  moreover have "cacheInv t0 [] t0" by (simp add: cacheInv_def)
  ultimately have i: "cacheInv t0 c' t'" by (rule forResults_inv)
  then show "distinct (map fst c')" by (simp add: cacheInv_def)
  from i show "opened p t' = opened p t0 + (if p \<in> fst ` set c' then 1 else 0)"
    by (simp add: cacheInv_def)
qed

theorem publisherCache_one_handle_per_provider_witness:
  "publisherCache_get scriptedEnv ''svc'' [] [] =
     (Inr 200, [(''svc'', 200)], [(EvtOpenPublisherMetadata ''svc'', success\<lparr>ret := 200\<rparr>)])
   \<and> publisherCache_get scriptedEnv ''svc'' [(''svc'', 200)]
       [(EvtOpenPublisherMetadata ''svc'', success\<lparr>ret := 200\<rparr>)] =
     (Inr 200, [(''svc'', 200)], [(EvtOpenPublisherMetadata ''svc'', success\<lparr>ret := 200\<rparr>)])
   \<and> fst (snd (forResults 3 scriptedEnv 4 100 [] [] [])) = [(''svc'', 200)]
   \<and> opened ''svc'' (snd (snd (forResults 3 scriptedEnv 4 100 [] [] []))) = 1"
proof -
  have g: "publisherCache_get scriptedEnv ''svc'' [] [] =
     (Inr 200, [(''svc'', 200)], [(EvtOpenPublisherMetadata ''svc'', success\<lparr>ret := 200\<rparr>)])"
    by (simp add: publisherCache_get_def UTF16PtrFromString_def syscall_def scriptedEnv_sel
        success_def Let_def)
  have n: "map_of ([] :: publisherCache) ''svc'' = None" by simp
  have e: "filter isEvtNext ([] :: trace) = []" by simp
  note T = publisherCache_one_handle_per_provider [where p = "''svc''" and E = scriptedEnv]
  have again: "publisherCache_get scriptedEnv ''svc'' [(''svc'', 200)]
       [(EvtOpenPublisherMetadata ''svc'', success\<lparr>ret := 200\<rparr>)] =
     (Inr 200, [(''svc'', 200)], [(EvtOpenPublisherMetadata ''svc'', success\<lparr>ret := 200\<rparr>)])"
    using T [THEN conjunct1, rule_format, OF conjI [OF n g]] by simp
  obtain t' where run: "forResults 3 scriptedEnv 4 100 [] [] [] =
      (Some (Returned [scriptedRecord, scriptedRecord, scriptedRecord, scriptedRecord]),
       [(''svc'', 200)], t')"
    using scripted_loop [OF e] by simp
  have "opened ''svc'' t' = 1"
    using T [THEN conjunct2, THEN conjunct2, THEN conjunct2, rule_format, OF run]
    by (simp add: opened_def)
  with g again run show ?thesis by simp
qed

subsection \<open>The query expression\<close>

lemma hexDigit_no_quote: "hexDigit d \<noteq> CHR 0x22"
proof -
  have "hexDigit d \<in> set ''0123456789abcdef''"
    unfolding hexDigit_def by (rule nth_mem) simp
  then show ?thesis by auto
qed

lemma notin_if: "q \<notin> set a \<Longrightarrow> q \<notin> set b \<Longrightarrow> q \<notin> set (if P then a else b)"
  by simp

lemma quoteByte_no_quote:
  assumes "c \<noteq> CHR 0x22"
  shows "CHR 0x22 \<notin> set (quoteByte c)"
  unfolding quoteByte_def Let_def
  using assms hexDigit_no_quote [of "of_char c div 16"] hexDigit_no_quote [of "of_char c"]
  by (intro notin_if) simp_all

text \<open>The quoted form of a provider without a double quote is a literal of XPath.\<close>

lemma plain_provider_is_literal:
  assumes "CHR 0x22 \<notin> set provider"
  shows "xpathLiteral (Quote provider)"
proof -
  have "CHR 0x22 \<notin> set (quoteByte c)" if "c \<in> set provider" for c
  proof -
    from that assms have "c \<noteq> CHR 0x22" by blast
    then show ?thesis by (rule quoteByte_no_quote)
  qed
  then have b: "CHR 0x22 \<notin> set (concat (map quoteByte provider))"
    by (simp only: set_concat set_map UN_iff Bex_def image_iff) blast
  have q: "Quote provider = CHR 0x22 # (concat (map quoteByte provider) @ [CHR 0x22])"
    by (simp only: Quote_def append.simps)
  show ?thesis
    unfolding q xpathLiteral_def using b by (simp only: list.case last_snoc butlast_snoc) simp
qed

text \<open>
  C4. The claim fails on the code: for a provider with a double quote, \<^verbatim>\<open>buildQuery\<close> puts
  the Go literal of \<^verbatim>\<open>strconv.Quote\<close> after \<^verbatim>\<open>@Name=\<close>, in which the quote is kept with a
  backslash before it. XPath has no escape character, so the quoted provider is not a
  string literal of the query language: the embedded quote ends the literal.
\<close>

theorem quoted_provider_is_no_literal:
  assumes "CHR 0x22 \<in> set provider"
  shows "buildQuery ms provider =
           ''*[System[Provider[@Name='' @ Quote provider
             @ ''] and TimeCreated[timediff(@SystemTime) <= '' @ formatInt ms @ '']]]''
         \<and> quoteByte (CHR 0x22) = [CHR 0x5C, CHR 0x22]
         \<and> \<not> xpathLiteral (Quote provider)"
proof -
  from assms have ne: "provider \<noteq> ''''" by auto
  have q: "quoteByte (CHR 0x22) = [CHR 0x5C, CHR 0x22]" by (simp add: quoteByte_def)
  from assms have "CHR 0x22 \<in> set (concat (map quoteByte provider))"
    using q by (auto intro!: bexI [of _ "CHR 0x22"])
  then have "\<not> xpathLiteral (Quote provider)"
    by (simp add: xpathLiteral_def Quote_def)
  with ne q show ?thesis by (simp add: buildQuery_def Let_def)
qed

theorem quoted_provider_is_no_literal_witness:
  "CHR 0x22 \<in> set [CHR ''a'', CHR 0x22, CHR ''b'']
   \<and> buildQuery 600000 [CHR ''a'', CHR 0x22, CHR ''b''] =
       ''*[System[Provider[@Name='' @ [CHR 0x22, CHR ''a'', CHR 0x5C, CHR 0x22, CHR ''b'', CHR 0x22]
         @ ''] and TimeCreated[timediff(@SystemTime) <= 600000]]]''
   \<and> \<not> xpathLiteral [CHR 0x22, CHR ''a'', CHR 0x5C, CHR 0x22, CHR ''b'', CHR 0x22]"
proof -
  have h: "CHR 0x22 \<in> set [CHR ''a'', CHR 0x22, CHR ''b'']" by simp
  have Q: "Quote [CHR ''a'', CHR 0x22, CHR ''b''] =
      [CHR 0x22, CHR ''a'', CHR 0x5C, CHR 0x22, CHR ''b'', CHR 0x22]"
    by (simp add: Quote_def quoteByte_def)
  have d: "formatInt 600000 = ''600000''"
    by (simp add: formatInt_def decimal.simps char_of_def bit_0)
  show ?thesis
    using h quoted_provider_is_no_literal [OF h, of 600000] by (simp add: Q d)
qed

end
